(* ===== verification/Prelude.thy ===== *)
theory Prelude
  imports Main "HOL-Library.Word" "HOL-Library.Sublist"
begin

text \<open>
  Shared vocabulary of the development: the machine integer types of the Rust source, the
  byte view of a Rust \<open>String\<close> (a \<open>string\<close> is the list of its UTF-8 bytes), the
  little-endian byte order of the two release targets (x86_64 Linux and arm64 macOS, see
  \<open>.github/workflows/release.yml\<close>), the slice operations the source uses (\<open>chunks\<close>, keeping a
  suffix), decimal printing, and the lemma collections the component theories fill.
\<close>

unbundle bit_operations_syntax

named_theorems wire_consts "the protocol constants of main.rs, unfolded to numerals"
named_theorems frame_simps "rules that reassociate encoded packets and byte streams"
named_theorems keeps "fields an operation leaves alone"

type_synonym u8 = "8 word"
type_synonym u16 = "16 word"
type_synonym u32 = "32 word"
type_synonym u64 = "64 word"
type_synonym i32 = "32 word"
type_synonym bytes = "8 word list"

subsection \<open>Suffixes of bounded length\<close>

definition last_n :: "nat \<Rightarrow> 'a list \<Rightarrow> 'a list" where
  "last_n n xs = drop (length xs - n) xs"

lemma length_last_n [simp]: "length (last_n n xs) = min n (length xs)"
  by (simp add: last_n_def)

lemma last_n_short [simp]: "length xs \<le> n \<Longrightarrow> last_n n xs = xs"
  by (simp add: last_n_def)

lemma last_n_append: "last_n n (xs @ ys) = last_n (n - length ys) xs @ last_n n ys"
proof (cases "n \<le> length ys")
  case True
  then show ?thesis by (simp add: last_n_def)
next
  case False
  then have "length xs + length ys - n = length xs - (n - length ys)" by simp
  with False show ?thesis by (simp add: last_n_def)
qed

lemma last_n_last_n_append: "last_n n (last_n n xs @ ys) = last_n n (xs @ ys)"
proof (cases "length xs \<le> n")
  case True
  then show ?thesis by simp
next
  case False
  then show ?thesis
    by (simp add: last_n_def, simp add: drop_drop add.commute)
qed

lemma last_n_suffix: "suffix (last_n n xs) xs"
  by (simp add: last_n_def suffix_drop)

subsection \<open>Slices in pieces: the standard library's chunks\<close>

text \<open>
  \<open>slice::chunks\<close> panics on a chunk size of 0; the source only calls it with the
  constant \<open>MAX_PAYLOAD\<close>, so the equation for 0 is never used.
\<close>

function chunks :: "nat \<Rightarrow> 'a list \<Rightarrow> 'a list list" where
  "chunks n xs =
     (if n = 0 \<or> xs = [] then [] else take n xs # chunks n (drop n xs))"
  by pat_completeness auto
termination
  by (relation "measure (\<lambda>(n, xs). length xs)") auto

declare chunks.simps [simp del]

lemma chunks_Nil [simp]: "chunks n [] = []"
  by (simp add: chunks.simps)

lemma chunks_step: "0 < n \<Longrightarrow> xs \<noteq> [] \<Longrightarrow> chunks n xs = take n xs # chunks n (drop n xs)"
  by (subst chunks.simps) simp

lemma concat_chunks [simp]: "0 < n \<Longrightarrow> concat (chunks n xs) = xs"
proof (induction n xs rule: chunks.induct)
  case (1 n xs)
  then show ?case by (subst chunks.simps) simp
qed

lemma chunks_bounds: "ys \<in> set (chunks n xs) \<Longrightarrow> ys \<noteq> [] \<and> length ys \<le> n"
proof (induction n xs rule: chunks.induct)
  case (1 n xs)
  then show ?case by (subst (asm) (2) chunks.simps) (auto split: if_splits)
qed

lemma length_chunks_bound: "0 < n \<Longrightarrow> n * length (chunks n xs) \<le> length xs + (n - 1)"
proof (induction n xs rule: chunks.induct)
  case (1 n xs)
  show ?case
  proof (cases "xs = []")
    case False
    with 1 have "n * length (chunks n (drop n xs)) \<le> length xs - n + (n - 1)" by simp
    moreover have "chunks n (drop n xs) = [] \<or> n < length xs"
      by (cases "n < length xs") (auto simp: chunks.simps)
    moreover have "1 \<le> length xs" using False by (cases xs) simp_all
    ultimately show ?thesis using False 1(2)
      by (subst chunks.simps) auto
  qed simp
qed

subsection \<open>Little-endian bytes of a machine integer\<close>

fun le_bytes :: "nat \<Rightarrow> nat \<Rightarrow> bytes" where
  "le_bytes 0 v = []"
| "le_bytes (Suc n) v = word_of_nat (v mod 256) # le_bytes n (v div 256)"

fun le_val :: "bytes \<Rightarrow> nat" where
  "le_val [] = 0"
| "le_val (b # bs) = unat b + 256 * le_val bs"

lemma le_bytes_numeral:
  "le_bytes (numeral k) v = word_of_nat (v mod 256) # le_bytes (pred_numeral k) (v div 256)"
  by (simp add: numeral_eq_Suc [of k])

lemma length_le_bytes [simp]: "length (le_bytes n v) = n"
  by (induction n arbitrary: v) auto

lemma unat_byte_of_nat [simp]: "unat (word_of_nat (v mod 256) :: u8) = v mod 256"
  by (simp add: unat_of_nat)

lemma le_val_le_bytes: "le_val (le_bytes n v) = v mod 256 ^ n"
proof (induction n arbitrary: v)
  case (Suc n)
  have "v mod 256 + 256 * (v div 256 mod 256 ^ n) = v mod (256 * 256 ^ n)"
    by (simp add: mod_mult2_eq)
  with Suc show ?case by simp
qed simp

lemma unat_byte_less: "unat (b :: u8) < 256"
  using unsigned_less [of b, where 'a = nat] by simp

lemma le_val_less: "le_val bs < 256 ^ length bs"
proof (induction bs)
  case (Cons b bs)
  then show ?case using unat_byte_less [of b] by simp
qed simp

lemma le_bytes_le_val: "le_bytes (length bs) (le_val bs) = bs"
proof (induction bs)
  case (Cons b bs)
  have "(unat b + 256 * le_val bs) div 256 = le_val bs"
    using unat_byte_less [of b] by simp
  moreover have "(unat b + 256 * le_val bs) mod 256 = unat b"
    using unat_byte_less [of b] by simp
  ultimately show ?case using Cons by simp
qed simp

subsection \<open>Decimal printing, as Rust's formatting of integers does it\<close>

definition digit_char :: "nat \<Rightarrow> char" where
  "digit_char d = char_of (48 + d)"

fun show_nat :: "nat \<Rightarrow> string" where
  "show_nat n = (if n < 10 then [digit_char n] else show_nat (n div 10) @ [digit_char (n mod 10)])"

declare show_nat.simps [simp del]

definition show_int :: "int \<Rightarrow> string" where
  "show_int i = (if i < 0 then ''-'' @ show_nat (nat (- i)) else show_nat (nat i))"

text \<open>The bytes of a string, and of a list of strings laid end to end.\<close>

definition as_bytes :: "string \<Rightarrow> bytes" where
  "as_bytes s = map of_char s"

lemma as_bytes_simps [simp]:
  "as_bytes [] = []" "as_bytes (c # s) = of_char c # as_bytes s"
  "as_bytes (s @ t) = as_bytes s @ as_bytes t" "length (as_bytes s) = length s"
  "as_bytes s = [] \<longleftrightarrow> s = []"
  by (simp_all add: as_bytes_def)

definition chars_of :: "bytes \<Rightarrow> string" where
  "chars_of = map (\<lambda>b. char_of (unat b))"

lemma chars_of_as_bytes [simp]: "chars_of (as_bytes s) = s"
proof -
  have "unat (word_of_nat (of_char c) :: u8) = of_char c" for c
    unfolding unat_of_nat by simp
  then have "char_of (unat (of_char c :: u8)) = c" for c
    unfolding of_nat_of_char by simp
  then show ?thesis by (simp add: chars_of_def as_bytes_def comp_def map_idI)
qed

end
