(* ===== verification/Kernel.thy ===== *)
theory Kernel
  imports Prelude
begin

text \<open>
  The descriptors the program reads and writes, as scripts. The kernel and the peer decide what
  each system call answers, so a descriptor carries the list of the answers its next calls get;
  every theorem quantifies over all such lists. A \<open>Blocking\<close> call that finds no answer left has
  not returned (\<open>None\<close>); a \<open>Nonblocking\<close> one answers \<open>EAGAIN\<close>. What \<open>read(2)\<close> and \<open>write(2)\<close>
  document is built in: a read delivers at most the bytes it asked for and the rest stays in
  the descriptor, a write accepts a prefix of what it was given. On top of the calls stand the
  loops of the standard library (\<open>read_exact\<close>, \<open>write_all\<close>) and the source's own \<open>fd_write_all\<close>.
\<close>

datatype error_kind =
    WouldBlock | Interrupted | WriteZero | UnexpectedEof | InvalidData | InvalidInput
  | ConnectionRefused | AddrInUse | NotFound | Other | OsError nat

datatype io_error = IoError (err_kind: error_kind) (err_msg: string)

type_synonym 'a io_result = "io_error + 'a"

datatype fd_mode = Blocking | Nonblocking

datatype read_answer = Bytes bytes | ReadErr io_error

datatype write_answer = Count nat | WriteErr io_error

record sock =
  rx :: "read_answer list"
  tx :: "write_answer list"
  wire :: bytes

definition eagain :: io_error where
  "eagain = IoError WouldBlock ''Resource temporarily unavailable''"

subsection \<open>One read call\<close>

fun next_read :: "nat \<Rightarrow> read_answer list \<Rightarrow> bytes io_result \<times> read_answer list" where
  "next_read n [] = (Inl eagain, [])"
| "next_read n (ReadErr e # rs) = (Inl e, rs)"
| "next_read n (Bytes bs # rs) =
     (Inr (take n bs), if n < length bs then Bytes (drop n bs) # rs else rs)"

definition sys_read :: "nat \<Rightarrow> read_answer list \<Rightarrow> (bytes io_result \<times> read_answer list) option" where
  "sys_read n rs = (if rs = [] then None else Some (next_read n rs))"

fun answer_size :: "read_answer \<Rightarrow> nat" where
  "answer_size (Bytes bs) = Suc (length bs)"
| "answer_size (ReadErr e) = 1"

definition rx_size :: "read_answer list \<Rightarrow> nat" where
  "rx_size rs = sum_list (map answer_size rs)"

lemma rx_size_simps [simp]: "rx_size [] = 0" "rx_size (a # rs) = answer_size a + rx_size rs"
  by (simp_all add: rx_size_def)

lemma next_read_shrinks:
  "next_read n rs = (r, rs') \<Longrightarrow> rs \<noteq> [] \<Longrightarrow> 0 < n \<Longrightarrow> rx_size rs' < rx_size rs"
  by (cases "(n, rs)" rule: next_read.cases) (auto split: if_splits)

lemma next_read_data_shrinks:
  "(Inr bs, rs') = next_read n rs \<Longrightarrow> 0 < n \<Longrightarrow> rx_size rs' < rx_size rs"
  by (cases rs) (auto dest: next_read_shrinks [OF sym])

lemma next_read_error_shrinks:
  "(Inl e, rs') = next_read n rs \<Longrightarrow> err_kind e \<noteq> WouldBlock \<Longrightarrow> rx_size rs' < rx_size rs"
  by (cases "(n, rs)" rule: next_read.cases) (auto simp: eagain_def)

lemma sys_read_shrinks: "sys_read n rs = Some (r, rs') \<Longrightarrow> 0 < n \<Longrightarrow> rx_size rs' < rx_size rs"
  by (auto simp: sys_read_def dest: next_read_shrinks split: if_splits)

text \<open>The bytes a descriptor still delivers before end of file or a hard error.\<close>

fun readable :: "read_answer list \<Rightarrow> bytes" where
  "readable [] = []"
| "readable (Bytes bs # rs) = (if bs = [] then [] else bs @ readable rs)"
| "readable (ReadErr e # rs) = (if err_kind e = Interrupted then readable rs else [])"

lemma sys_read_data:
  assumes "sys_read n rs = Some (Inr bs, rs')" "0 < n" "bs \<noteq> []"
  shows "bs @ readable rs' = readable rs \<and> length bs \<le> n"
  using assms by (cases "(n, rs)" rule: next_read.cases) (auto simp: sys_read_def split: if_splits)

lemma sys_read_eof: "sys_read n rs = Some (Inr [], rs') \<Longrightarrow> 0 < n \<Longrightarrow> readable rs = []"
  by (cases "(n, rs)" rule: next_read.cases) (auto simp: sys_read_def split: if_splits)

lemma sys_read_error:
  "sys_read n rs = Some (Inl e, rs') \<Longrightarrow>
     readable rs = (if err_kind e = Interrupted then readable rs' else [])"
  by (cases "(n, rs)" rule: next_read.cases) (auto simp: sys_read_def split: if_splits)

lemma sys_read_none [simp]: "sys_read n rs = None \<longleftrightarrow> rs = []"
  by (simp add: sys_read_def)

subsection \<open>The standard library's read exact loop\<close>

definition eof_error :: io_error where
  "eof_error = IoError UnexpectedEof ''failed to fill whole buffer''"

function read_exact :: "nat \<Rightarrow> read_answer list \<Rightarrow> (bytes io_result \<times> read_answer list) option" where
  "read_exact n rs =
     (if n = 0 then Some (Inr [], rs)
      else case sys_read n rs of
        None \<Rightarrow> None
      | Some (Inr bs, rs') \<Rightarrow>
          (if bs = [] then Some (Inl eof_error, rs')
           else case read_exact (n - length bs) rs' of
             None \<Rightarrow> None
           | Some (Inl e, rs'') \<Rightarrow> Some (Inl e, rs'')
           | Some (Inr ds, rs'') \<Rightarrow> Some (Inr (bs @ ds), rs''))
      | Some (Inl e, rs') \<Rightarrow>
          (if err_kind e = Interrupted then read_exact n rs' else Some (Inl e, rs')))"
  by pat_completeness auto
termination
  by (relation "measure (\<lambda>(n, rs). rx_size rs)") (auto dest: sys_read_shrinks)

declare read_exact.simps [simp del]

lemma read_exact_0 [simp]: "read_exact 0 rs = Some (Inr [], rs)"
  by (simp add: read_exact.simps)

text \<open>
  The loop returns exactly the next \<open>n\<close> readable bytes, however the answers split them, and
  only when there are that many.
\<close>

lemma read_exact_ok:
  "n \<le> length (readable rs) \<Longrightarrow>
     \<exists>rs'. read_exact n rs = Some (Inr (take n (readable rs)), rs') \<and>
           readable rs' = drop n (readable rs)"
proof (induction n rs rule: read_exact.induct)
  case (1 n rs)
  show ?case
  proof (cases "n = 0")
    case False
    with "1.prems" obtain r rs' where call: "sys_read n rs = Some (r, rs')"
      by (cases rs) (auto simp: sys_read_def intro: prod.exhaust)
    show ?thesis
    proof (cases r)
      case (Inl e)
      with call False "1.prems" have "err_kind e = Interrupted" "readable rs = readable rs'"
        by (auto dest: sys_read_error split: if_splits)
      with "1.IH"(1) [OF False call refl Inl] call Inl False "1.prems" show ?thesis
        by (simp add: read_exact.simps [of n rs])
    next
      case (Inr bs)
      with call False "1.prems" have ne: "bs \<noteq> []" by (auto dest: sys_read_eof)
      with call Inr False have data: "readable rs = bs @ readable rs'" and len: "length bs \<le> n"
        using sys_read_data by fastforce+
      from data "1.prems" have "n - length bs \<le> length (readable rs')" by simp
      with "1.IH"(2) [OF False call refl Inr ne] obtain rs'' where
        "read_exact (n - length bs) rs' = Some (Inr (take (n - length bs) (readable rs')), rs'')"
        "readable rs'' = drop (n - length bs) (readable rs')" by blast
      with call Inr False ne data len show ?thesis by (simp add: read_exact.simps [of n rs])
    qed
  qed simp
qed

lemma read_exact_short:
  "length (readable rs) < n \<Longrightarrow> read_exact n rs = Some (Inr d, rs') \<Longrightarrow> False"
proof (induction n rs arbitrary: d rs' rule: read_exact.induct)
  case (1 n rs)
  then have n: "n \<noteq> 0" by simp
  with "1.prems" obtain r rs1 where call: "sys_read n rs = Some (r, rs1)"
    by (auto simp: read_exact.simps [of n rs] split: option.splits)
  show ?case
  proof (cases r)
    case (Inl e)
    with call "1.prems" "1.IH"(1) [OF n call refl Inl] n show ?thesis
      by (auto simp: read_exact.simps [of n rs] dest: sys_read_error split: if_splits)
  next
    case (Inr bs)
    with call n "1.prems" have ne: "bs \<noteq> []" by (auto simp: read_exact.simps [of n rs])
    with call Inr n have "readable rs = bs @ readable rs1" using sys_read_data by fastforce
    with "1.prems"(1) have "length (readable rs1) < n - length bs" by simp
    with "1.IH"(2) [OF n call refl Inr ne] call Inr ne n "1.prems"(2) show ?thesis
      by (auto simp: read_exact.simps [of n rs] split: option.splits sum.splits if_splits)
  qed
qed

lemma read_exact_iff:
  "read_exact n rs = Some (Inr d, rs') \<Longrightarrow>
     d = take n (readable rs) \<and> n \<le> length (readable rs) \<and> readable rs' = drop n (readable rs)"
  using read_exact_ok [of n rs] read_exact_short [of rs n d rs'] by (cases "n \<le> length (readable rs)") auto

subsection \<open>Write loops: write all, and the source's fd write all\<close>

text \<open>
  \<open>Write::write_all\<close> and \<open>fd_write_all\<close> share this loop and differ in the error they return when
  a call accepts nothing. The result is the outcome, the bytes the kernel accepted, and the
  answers left.
\<close>

fun write_loop ::
  "fd_mode \<Rightarrow> io_error \<Rightarrow> bytes \<Rightarrow> write_answer list \<Rightarrow>
     (unit io_result \<times> bytes \<times> write_answer list) option" where
  "write_loop m z [] ws = Some (Inr (), [], ws)"
| "write_loop m z (b # bs) [] =
     (case m of Blocking \<Rightarrow> None | Nonblocking \<Rightarrow> Some (Inl eagain, [], []))"
| "write_loop m z (b # bs) (Count n # ws) =
     (if n = 0 then Some (Inl z, [], ws)
      else map_option (\<lambda>(r, acc, ws'). (r, take n (b # bs) @ acc, ws'))
             (write_loop m z (drop n (b # bs)) ws))"
| "write_loop m z (b # bs) (WriteErr e # ws) =
     (if err_kind e = Interrupted then write_loop m z (b # bs) ws else Some (Inl e, [], ws))"

definition fd_write_all ::
  "fd_mode \<Rightarrow> bytes \<Rightarrow> write_answer list \<Rightarrow> (unit io_result \<times> bytes \<times> write_answer list) option" where
  "fd_write_all m buf ws = write_loop m (IoError WriteZero ''short write'') buf ws"

definition write_all :: "bytes \<Rightarrow> sock \<Rightarrow> (unit io_result \<times> sock) option" where
  "write_all buf s =
     map_option (\<lambda>(r, acc, ws). (r, s\<lparr>tx := ws, wire := wire s @ acc\<rparr>))
       (write_loop Blocking (IoError WriteZero ''failed to write whole buffer'') buf (tx s))"

lemma write_loop_prefix:
  "write_loop m z buf ws = Some (r, acc, ws') \<Longrightarrow> prefix acc buf \<and> (r = Inr () \<longleftrightarrow> acc = buf)"
proof (induction m z buf ws arbitrary: r acc ws' rule: write_loop.induct)
  case (3 m z b bs n ws)
  show ?case
  proof (cases "n = 0")
    case False
    with "3.prems" obtain acc' where
      rec: "write_loop m z (drop n (b # bs)) ws = Some (r, acc', ws')"
      and acc: "acc = take n (b # bs) @ acc'" by auto
    from "3.IH" [OF False rec] show ?thesis
      unfolding acc by (metis append_take_drop_id same_append_eq same_prefix_prefix)
  qed (use "3.prems" in auto)
qed (auto split: fd_mode.splits if_splits)

lemma write_loop_nonblocking: "write_loop Nonblocking z buf ws \<noteq> None"
  by (induction Nonblocking z buf ws rule: write_loop.induct) auto

lemma write_all_ok:
  "write_all buf s = Some (Inr (), s') \<Longrightarrow> wire s' = wire s @ buf \<and> rx s' = rx s"
  by (auto simp: write_all_def dest: write_loop_prefix)

lemma write_all_prefix:
  "write_all buf s = Some (r, s') \<Longrightarrow>
     \<exists>acc. prefix acc buf \<and> wire s' = wire s @ acc \<and> rx s' = rx s \<and> (r = Inr () \<longleftrightarrow> acc = buf)"
  by (auto simp: write_all_def dest: write_loop_prefix)

text \<open>A socket that takes every byte offered in one call.\<close>

lemma write_loop_at_once: "length buf \<le> n \<Longrightarrow> buf \<noteq> [] \<Longrightarrow> write_loop m z buf (Count n # ws) = Some (Inr (), buf, ws)"
  by (cases buf) auto

text \<open>A descriptor that takes some bytes at every call.\<close>

definition takes :: "write_answer \<Rightarrow> bool" where
  "takes a \<longleftrightarrow> (case a of Count n \<Rightarrow> 0 < n | WriteErr e \<Rightarrow> False)"

lemma write_loop_takes:
  "list_all takes ws \<Longrightarrow> length bs \<le> length ws \<Longrightarrow>
     \<exists>ws'. write_loop m z bs ws = Some (Inr (), bs, ws') \<and> list_all takes ws' \<and>
       length ws \<le> length ws' + length bs"
proof (induction m z bs ws rule: write_loop.induct)
  case (3 m z b bs n ws)
  then have n: "n \<noteq> 0" by (simp add: takes_def)
  have "length (drop n (b # bs)) \<le> length ws" using "3.prems"(2) n by simp
  then obtain ws' where "write_loop m z (drop n (b # bs)) ws = Some (Inr (), drop n (b # bs), ws')"
    "list_all takes ws'" "length ws \<le> length ws' + length (drop n (b # bs))"
    using "3.IH" [OF n] "3.prems"(1) by auto
  with n show ?case by simp
qed (auto simp: takes_def)

lemma write_all_takes:
  assumes "list_all takes (tx s)" "length bs \<le> length (tx s)"
  shows "\<exists>s'. write_all bs s = Some (Inr (), s') \<and> list_all takes (tx s') \<and>
    length (tx s) \<le> length (tx s') + length bs"
proof -
  from write_loop_takes [OF assms] obtain ws where
    "write_loop Blocking (IoError WriteZero ''failed to write whole buffer'') bs (tx s) = Some (Inr (), bs, ws)"
    "list_all takes ws" "length (tx s) \<le> length ws + length bs" by blast
  then show ?thesis by (simp add: write_all_def)
qed

end
