(* ===== verification/Wire.thy ===== *)
theory Wire
  imports Kernel
begin

text \<open>
  The packet protocol of \<open>main.rs\<close>: the constants, \<open>Packet\<close>, its encoder \<open>packet_bytes\<close>, the
  server's decoder \<open>pop_packet\<close> over a client's receive buffer, the clients' blocking
  \<open>send_packet_blocking\<close> and \<open>recv_packet_blocking\<close>, and the integer readers \<open>read_u32\<close> and
  \<open>read_u64\<close>. The locale \<open>packet_codec\<close> states what a framing of a byte stream has to promise and
  proves reassembly from it; the packets of the program are its interpretation \<open>pk\<close>.
\<close>

subsection \<open>Constants\<close>

definition MSG_CONTENT :: u32 where
  "MSG_CONTENT = 0"
definition MSG_ATTACH :: u32 where
  "MSG_ATTACH = 1"
definition MSG_DETACH :: u32 where
  "MSG_DETACH = 2"
definition MSG_RESIZE :: u32 where
  "MSG_RESIZE = 3"
definition MSG_EXIT :: u32 where
  "MSG_EXIT = 4"
definition MSG_PID :: u32 where
  "MSG_PID = 5"
definition MSG_DUMP :: u32 where
  "MSG_DUMP = 6"
definition MSG_DUMP_END :: u32 where
  "MSG_DUMP_END = 7"
definition MSG_SEND_KEYS :: u32 where
  "MSG_SEND_KEYS = 8"

definition CLIENT_READONLY :: u32 where
  "CLIENT_READONLY = push_bit 0 1"
definition CLIENT_LOWPRIORITY :: u32 where
  "CLIENT_LOWPRIORITY = push_bit 1 1"
definition MAX_PAYLOAD :: nat where
  "MAX_PAYLOAD = 4096 - 8"

lemmas msg_consts [wire_consts] =
  MSG_CONTENT_def MSG_ATTACH_def MSG_DETACH_def MSG_RESIZE_def MSG_EXIT_def MSG_PID_def
  MSG_DUMP_def MSG_DUMP_END_def MSG_SEND_KEYS_def

lemma MAX_PAYLOAD_pos [simp]: "0 < MAX_PAYLOAD" "MAX_PAYLOAD \<noteq> 0"
  by (simp_all add: MAX_PAYLOAD_def)

subsection \<open>Packets and integers as bytes\<close>

record packet =
  mtyp :: u32
  payload :: bytes

definition u32_to_ne_bytes :: "u32 \<Rightarrow> bytes" where
  "u32_to_ne_bytes w = le_bytes 4 (unat w)"

definition u32_from_ne_bytes :: "bytes \<Rightarrow> u32" where
  "u32_from_ne_bytes bs = word_of_nat (le_val bs)"

definition u16_to_ne_bytes :: "u16 \<Rightarrow> bytes" where
  "u16_to_ne_bytes w = le_bytes 2 (unat w)"

definition u16_from_ne_bytes :: "bytes \<Rightarrow> u16" where
  "u16_from_ne_bytes bs = word_of_nat (le_val bs)"

definition u64_to_ne_bytes :: "u64 \<Rightarrow> bytes" where
  "u64_to_ne_bytes w = le_bytes 8 (unat w)"

definition u64_from_ne_bytes :: "bytes \<Rightarrow> u64" where
  "u64_from_ne_bytes bs = word_of_nat (le_val bs)"

definition read_u32 :: "bytes \<Rightarrow> u32 option" where
  "read_u32 bs = (if 4 \<le> length bs then Some (u32_from_ne_bytes (take 4 bs)) else None)"

definition read_u64 :: "bytes \<Rightarrow> u64 option" where
  "read_u64 bs = (if 8 \<le> length bs then Some (u64_from_ne_bytes (take 8 bs)) else None)"

definition packet_bytes :: "packet \<Rightarrow> bytes" where
  "packet_bytes pkt =
     u32_to_ne_bytes (mtyp pkt) @ u32_to_ne_bytes (word_of_nat (length (payload pkt))) @ payload pkt"

definition pop_packet :: "bytes \<Rightarrow> packet option \<times> bytes" where
  "pop_packet buf =
     (if length buf < 8 then (None, buf)
      else let ty = u32_from_ne_bytes (take 4 buf);
               len = unat (u32_from_ne_bytes (take 4 (drop 4 buf)))
           in if len > MAX_PAYLOAD then (None, [])
              else if length buf < 8 + len then (None, buf)
              else (Some \<lparr>mtyp = ty, payload = take len (drop 8 buf)\<rparr>, drop (8 + len) buf))"

lemma pop_packet_shrinks: "pop_packet buf = (Some p, b) \<Longrightarrow> length b < length buf"
  by (auto simp: pop_packet_def Let_def split: if_splits)

text \<open>The loop \<open>while let Some(pkt) = pop_packet(..)\<close> on its own: the packets and what stays.\<close>

function pop_all :: "bytes \<Rightarrow> packet list \<times> bytes" where
  "pop_all buf =
     (case pop_packet buf of
        (None, b) \<Rightarrow> ([], b)
      | (Some p, b) \<Rightarrow> (case pop_all b of (ps, r) \<Rightarrow> (p # ps, r)))"
  by pat_completeness auto
termination
  by (relation "measure length") (auto intro: pop_packet_shrinks dest: sym)

declare pop_all.simps [simp del]

text \<open>A buffer fed with the pieces successive reads deliver, drained after each.\<close>

fun feed :: "(bytes \<Rightarrow> 'p list \<times> bytes) \<Rightarrow> bytes \<Rightarrow> bytes list \<Rightarrow> 'p list \<times> bytes" where
  "feed drain buf [] = ([], buf)"
| "feed drain buf (d # ds) =
     (case drain (buf @ d) of (ps, b) \<Rightarrow> (case feed drain b ds of (qs, r) \<Rightarrow> (ps @ qs, r)))"

definition send_packet_blocking :: "packet \<Rightarrow> sock \<Rightarrow> (unit io_result \<times> sock) option" where
  "send_packet_blocking pkt s = write_all (packet_bytes pkt) s"

definition recv_packet_blocking :: "sock \<Rightarrow> (packet io_result \<times> sock) option" where
  "recv_packet_blocking s =
     (case read_exact 8 (rx s) of
        None \<Rightarrow> None
      | Some (Inl e, rs) \<Rightarrow> Some (Inl e, s\<lparr>rx := rs\<rparr>)
      | Some (Inr hdr, rs) \<Rightarrow>
          let ty = u32_from_ne_bytes (take 4 hdr);
              len = unat (u32_from_ne_bytes (take 4 (drop 4 hdr)))
          in if len > MAX_PAYLOAD
             then Some (Inl (IoError InvalidData ''packet too large''), s\<lparr>rx := rs\<rparr>)
             else case read_exact len rs of
               None \<Rightarrow> None
             | Some (Inl e, rs') \<Rightarrow> Some (Inl e, s\<lparr>rx := rs'\<rparr>)
             | Some (Inr pl, rs') \<Rightarrow> Some (Inr \<lparr>mtyp = ty, payload = pl\<rparr>, s\<lparr>rx := rs'\<rparr>))"

text \<open>The content that a sequence of packets carries.\<close>

definition contents :: "packet list \<Rightarrow> bytes" where
  "contents ps = concat (map payload (filter (\<lambda>p. mtyp p = MSG_CONTENT) ps))"

lemma contents_simps [simp]:
  "contents [] = []" "contents (ps @ qs) = contents ps @ contents qs"
  "contents (p # ps) = (if mtyp p = MSG_CONTENT then payload p else []) @ contents ps"
  by (simp_all add: contents_def)

lemma resize_not_content [simp]: "MSG_RESIZE \<noteq> MSG_CONTENT" "MSG_EXIT \<noteq> MSG_CONTENT" "MSG_EXIT \<noteq> MSG_RESIZE"
  by (simp_all add: wire_consts)

definition packet_ok :: "packet \<Rightarrow> bool" where
  "packet_ok p \<longleftrightarrow> length (payload p) \<le> MAX_PAYLOAD"

subsection \<open>Integers round trip\<close>

lemma u32_roundtrip [simp]: "u32_from_ne_bytes (u32_to_ne_bytes w) = w"
  using unsigned_less [of w, where 'a = nat]
  by (simp add: u32_from_ne_bytes_def u32_to_ne_bytes_def le_val_le_bytes)

lemma u16_roundtrip [simp]: "u16_from_ne_bytes (u16_to_ne_bytes w) = w"
  using unsigned_less [of w, where 'a = nat]
  by (simp add: u16_from_ne_bytes_def u16_to_ne_bytes_def le_val_le_bytes)

lemma u64_roundtrip [simp]: "u64_from_ne_bytes (u64_to_ne_bytes w) = w"
  using unsigned_less [of w, where 'a = nat]
  by (simp add: u64_from_ne_bytes_def u64_to_ne_bytes_def le_val_le_bytes)

lemma length_ne_bytes [simp]:
  "length (u32_to_ne_bytes w) = 4" "length (u16_to_ne_bytes v) = 2" "length (u64_to_ne_bytes x) = 8"
  by (simp_all add: u32_to_ne_bytes_def u16_to_ne_bytes_def u64_to_ne_bytes_def)

lemma u32_to_from: "length bs = 4 \<Longrightarrow> u32_to_ne_bytes (u32_from_ne_bytes bs) = bs"
  using le_val_less [of bs] le_bytes_le_val [of bs]
  by (simp add: u32_from_ne_bytes_def u32_to_ne_bytes_def unat_of_nat)

lemma read_u32_bytes [simp]: "read_u32 (u32_to_ne_bytes w @ bs) = Some w"
  by (simp add: read_u32_def)

lemma read_u64_bytes [simp]: "read_u64 (u64_to_ne_bytes w @ bs) = Some w"
  by (simp add: read_u64_def)

lemma payload_len_u32: "packet_ok p \<Longrightarrow> unat (word_of_nat (length (payload p)) :: u32) = length (payload p)"
  by (simp add: packet_ok_def MAX_PAYLOAD_def unat_of_nat)

lemma length_packet_bytes [simp]: "length (packet_bytes p) = 8 + length (payload p)"
  by (simp add: packet_bytes_def)

lemma packet_bytes_not_Nil [simp]: "packet_bytes p \<noteq> []"
  using length_packet_bytes [of p] by (metis add_is_0 list.size(3) zero_neq_numeral)

subsection \<open>The contract of a framing, and reassembly from it\<close>

locale packet_codec =
  fixes enc :: "'p \<Rightarrow> bytes"
    and dec :: "bytes \<Rightarrow> 'p option \<times> bytes"
    and ok :: "'p \<Rightarrow> bool"
    and drain :: "bytes \<Rightarrow> 'p list \<times> bytes"
  assumes dec_enc: "ok p \<Longrightarrow> dec (enc p @ rest) = (Some p, rest)"
    and dec_partial: "ok p \<Longrightarrow> strict_prefix buf (enc p) \<Longrightarrow> dec buf = (None, buf)"
    and dec_Nil: "dec [] = (None, [])"
    and drain_dec: "drain buf =
      (case dec buf of (None, b) \<Rightarrow> ([], b)
       | (Some p, b) \<Rightarrow> (case drain b of (ps, r) \<Rightarrow> (p # ps, r)))"
begin

definition stream_of :: "'p list \<Rightarrow> bytes" where
  "stream_of ps = concat (map enc ps)"

lemma stream_of_simps [simp]:
  "stream_of [] = []" "stream_of (p # ps) = enc p @ stream_of ps"
  "stream_of (ps @ qs) = stream_of ps @ stream_of qs"
  by (simp_all add: stream_of_def)

lemma drain_Cons: "ok p \<Longrightarrow> drain (enc p @ buf) = (p # fst (drain buf), snd (drain buf))"
  by (subst drain_dec) (simp add: dec_enc split: prod.splits)

lemma drain_stream:
  "list_all ok ps \<Longrightarrow> drain (stream_of ps @ buf) = (ps @ fst (drain buf), snd (drain buf))"
  by (induction ps) (simp_all add: drain_Cons)

lemma drain_idle: "dec buf = (None, buf) \<Longrightarrow> drain buf = ([], buf)"
  by (subst drain_dec) simp

text \<open>
  Draining a buffer that holds the start of a valid stream yields a prefix of the packets and
  leaves exactly the start of the rest of the stream.
\<close>

lemma drain_split:
  "list_all ok ps \<Longrightarrow> buf @ future = stream_of ps \<Longrightarrow>
     \<exists>qs ps' r. drain buf = (qs, r) \<and> ps = qs @ ps' \<and> r @ future = stream_of ps' \<and> dec r = (None, r)"
proof (induction ps arbitrary: buf)
  case Nil
  then show ?case by (simp add: drain_idle dec_Nil)
next
  case (Cons p ps)
  show ?case
  proof (cases "strict_prefix buf (enc p)")
    case True
    with Cons.prems have "dec buf = (None, buf)" by (intro dec_partial) auto
    with Cons.prems show ?thesis by (auto simp: drain_idle)
  next
    case False
    from Cons.prems(2) have "prefix buf (enc p @ stream_of ps)" by (metis prefixI stream_of_simps(2))
    with False have "prefix (enc p) buf"
      by (metis prefix_append prefix_order.less_le prefix_same_cases prefixI)
    then obtain b where b: "buf = enc p @ b" by (auto elim: prefixE)
    with Cons.prems obtain qs ps' r where "drain b = (qs, r)" "ps = qs @ ps'"
      "r @ future = stream_of ps'" "dec r = (None, r)"
      using Cons.IH [of b] by auto
    with b Cons.prems show ?thesis by (auto simp: drain_Cons)
  qed
qed

lemma stuck_stream: "list_all ok ps \<Longrightarrow> dec (stream_of ps) = (None, r) \<Longrightarrow> ps = []"
  by (cases ps) (auto simp: dec_enc)

lemma feed_stream:
  "list_all ok ps \<Longrightarrow> dec buf = (None, buf) \<Longrightarrow> buf @ concat ds = stream_of ps \<Longrightarrow>
     feed drain buf ds = (ps, [])"
proof (induction ds arbitrary: buf ps)
  case Nil
  then show ?case using stuck_stream by fastforce
next
  case (Cons d ds)
  from Cons.prems have "(buf @ d) @ concat ds = stream_of ps" by simp
  with drain_split [OF Cons.prems(1)] obtain qs ps' r where
    "drain (buf @ d) = (qs, r)" "ps = qs @ ps'" "r @ concat ds = stream_of ps'" "dec r = (None, r)"
    by blast
  moreover from calculation Cons.prems(1) have "feed drain r ds = (ps', [])"
    by (intro Cons.IH) simp_all
  ultimately show ?case by simp
qed

lemma reassembly:
  "list_all ok ps \<Longrightarrow> concat ds = stream_of ps \<Longrightarrow> feed drain [] ds = (ps, [])"
  by (rule feed_stream) (simp_all add: dec_Nil)

end

subsection \<open>The program's packets keep the contract\<close>

lemma header_split:
  "take 4 (packet_bytes p @ rest) = u32_to_ne_bytes (mtyp p)"
  "take 4 (drop 4 (packet_bytes p @ rest)) = u32_to_ne_bytes (word_of_nat (length (payload p)))"
  "drop 8 (packet_bytes p @ rest) = payload p @ rest"
  by (simp_all add: packet_bytes_def)

lemma pop_packet_bytes: "packet_ok p \<Longrightarrow> pop_packet (packet_bytes p @ rest) = (Some p, rest)"
  unfolding pop_packet_def Let_def header_split u32_roundtrip payload_len_u32
  by (simp add: payload_len_u32) (simp add: packet_ok_def packet_bytes_def)

lemma pop_packet_complete:
  assumes "pop_packet buf = (Some p, rest)"
  shows "packet_ok p \<and> buf = packet_bytes p @ rest"
proof -
  let ?ty = "u32_from_ne_bytes (take 4 buf)" and ?n = "u32_from_ne_bytes (take 4 (drop 4 buf))"
  from assms have len: "8 \<le> length buf" "unat ?n \<le> MAX_PAYLOAD" "8 + unat ?n \<le> length buf"
    and p: "p = \<lparr>mtyp = ?ty, payload = take (unat ?n) (drop 8 buf)\<rparr>" "rest = drop (8 + unat ?n) buf"
    by (auto simp: pop_packet_def Let_def split: if_splits)
  have "buf = take 4 buf @ take 4 (drop 4 buf) @ drop 8 buf"
    using append_take_drop_id [of 4 buf] append_take_drop_id [of 4 "drop 4 buf"]
    by (simp del: append_take_drop_id)
  moreover have "drop 8 buf = take (unat ?n) (drop 8 buf) @ rest"
    using append_take_drop_id [of "unat ?n" "drop 8 buf"] unfolding p(2)
    by (simp del: append_take_drop_id add: add.commute)
  ultimately show ?thesis
    using len p by (simp add: packet_ok_def packet_bytes_def u32_to_from)
qed

lemma pop_packet_iff: "pop_packet buf = (Some p, rest) \<longleftrightarrow> packet_ok p \<and> buf = packet_bytes p @ rest"
  using pop_packet_bytes pop_packet_complete by blast

lemma pop_packet_partial:
  assumes "packet_ok p" "strict_prefix buf (packet_bytes p)"
  shows "pop_packet buf = (None, buf)"
proof (cases "length buf < 8")
  case False
  from assms(2) obtain t where t: "packet_bytes p = buf @ t" "t \<noteq> []"
    by (auto elim: strict_prefixE')
  then have "take 4 (packet_bytes p) = take 4 buf" "take 4 (drop 4 (packet_bytes p)) = take 4 (drop 4 buf)"
    using False by simp_all
  with header_split [of p "[]"] have
    "take 4 (drop 4 buf) = u32_to_ne_bytes (word_of_nat (length (payload p)))" by simp
  then have n: "unat (u32_from_ne_bytes (take 4 (drop 4 buf))) = length (payload p)"
    using assms(1) by (simp add: payload_len_u32)
  have "length buf < length (packet_bytes p)" using t by simp
  with n False assms(1) show ?thesis by (simp add: pop_packet_def Let_def packet_ok_def)
qed (simp add: pop_packet_def)

interpretation pk: packet_codec packet_bytes pop_packet packet_ok pop_all
proof
  show "pop_all buf = (case pop_packet buf of (None, b) \<Rightarrow> ([], b)
      | (Some p, b) \<Rightarrow> (case pop_all b of (ps, r) \<Rightarrow> (p # ps, r)))" for buf
    by (rule pop_all.simps)
qed (simp_all add: pop_packet_bytes pop_packet_partial, simp add: pop_packet_def)

subsection \<open>The blocking receiver is the decoder\<close>

lemma recv_sound:
  assumes "recv_packet_blocking s = Some (Inr p, s')"
  shows "pop_packet (readable (rx s)) = (Some p, readable (rx s')) \<and> tx s' = tx s \<and> wire s' = wire s"
proof -
  let ?R = "readable (rx s)"
  let ?n = "unat (u32_from_ne_bytes (take 4 (drop 4 ?R)))"
  from assms obtain hdr rs where h: "read_exact 8 (rx s) = Some (Inr hdr, rs)"
    by (auto simp: recv_packet_blocking_def split: option.splits sum.splits)
  from read_exact_iff [OF h] have hdr: "hdr = take 8 ?R" "8 \<le> length ?R" "readable rs = drop 8 ?R" by auto
  from hdr have f: "take 4 hdr = take 4 ?R" "take 4 (drop 4 hdr) = take 4 (drop 4 ?R)"
    by (simp_all add: take_drop)
  from assms h f obtain pl rs' where pl: "read_exact ?n rs = Some (Inr pl, rs')" "?n \<le> MAX_PAYLOAD"
    and p: "p = \<lparr>mtyp = u32_from_ne_bytes (take 4 ?R), payload = pl\<rparr>" "s' = s\<lparr>rx := rs'\<rparr>"
    by (auto simp: recv_packet_blocking_def Let_def split: option.splits sum.splits if_splits)
  from read_exact_iff [OF pl(1)] hdr have "pl = take ?n (drop 8 ?R)" "8 + ?n \<le> length ?R"
    "readable rs' = drop (8 + ?n) ?R" by (auto simp: add.commute)
  with p pl hdr show ?thesis by (auto simp: pop_packet_def Let_def)
qed

lemma recv_complete:
  assumes "pop_packet (readable (rx s)) = (Some p, rest)"
  shows "\<exists>s'. recv_packet_blocking s = Some (Inr p, s') \<and> readable (rx s') = rest"
proof -
  let ?R = "readable (rx s)"
  let ?n = "unat (u32_from_ne_bytes (take 4 (drop 4 ?R)))"
  from assms have len: "8 \<le> length ?R" "?n \<le> MAX_PAYLOAD" "8 + ?n \<le> length ?R"
    and p: "p = \<lparr>mtyp = u32_from_ne_bytes (take 4 ?R), payload = take ?n (drop 8 ?R)\<rparr>"
      "rest = drop (8 + ?n) ?R"
    by (auto simp: pop_packet_def Let_def split: if_splits)
  from read_exact_ok [OF len(1)] obtain rs where
    h: "read_exact 8 (rx s) = Some (Inr (take 8 ?R), rs)" and rs: "readable rs = drop 8 ?R" by auto
  from rs len have "?n \<le> length (readable rs)" by simp
  from read_exact_ok [OF this] rs obtain rs' where
    b: "read_exact ?n rs = Some (Inr (take ?n (drop 8 ?R)), rs')"
    and rs': "readable rs' = drop (8 + ?n) ?R" by (auto simp: add.commute)
  have "take 4 (take 8 ?R) = take 4 ?R" "take 4 (drop 4 (take 8 ?R)) = take 4 (drop 4 ?R)"
    by (simp_all add: take_drop)
  with h b rs' p len show ?thesis by (simp add: recv_packet_blocking_def Let_def)
qed

text \<open>An oversized header empties the server's buffer and is refused by the blocking receiver.\<close>

lemma pop_oversize:
  "MAX_PAYLOAD < unat n \<Longrightarrow> pop_packet (u32_to_ne_bytes ty @ u32_to_ne_bytes n @ rest) = (None, [])"
  by (simp add: pop_packet_def Let_def)

subsection \<open>Properties\<close>

text \<open>\<open>pop_packet\<close> is an exact decoder: it returns a packet and a rest precisely when the buffer
  is the encoding of that packet (of at most \<open>MAX_PAYLOAD\<close> bytes) followed by that rest. So
  decoding inverts \<open>packet_bytes\<close>, no two packets share an encoding, and nothing is skipped.\<close>

lemma pop_packet_exact:
  "pop_packet buf = (Some p, rest) \<longleftrightarrow> packet_ok p \<and> buf = packet_bytes p @ rest"
  by (rule pop_packet_iff)

text \<open>C15: However the socket cuts a stream of encoded packets into reads, appending each read to the
  buffer and draining it, as the server does with a client's buffer, yields exactly the packets
  sent, in order, and leaves the buffer empty.\<close>

theorem packet_reassembly:
  assumes "list_all packet_ok ps" and "concat reads = concat (map packet_bytes ps)"
  shows "feed pop_all [] reads = (ps, [])"
  using assms by (intro pk.reassembly) (simp_all add: pk.stream_of_def)

theorem packet_reassembly_witness:
  "feed pop_all [] [[2], [0, 0, 0, 0, 0], [0, 0, 0, 0, 0, 0, 1, 0, 0], [0, 120]] =
     ([\<lparr>mtyp = MSG_DETACH, payload = []\<rparr>, \<lparr>mtyp = MSG_CONTENT, payload = [120]\<rparr>], [])"
  by (rule packet_reassembly)
    (simp_all add: packet_ok_def packet_bytes_def u32_to_ne_bytes_def wire_consts le_bytes_numeral MAX_PAYLOAD_def)

text \<open>C23: The clients' \<open>recv_packet_blocking\<close> computes the same function as the server's decoder: over
  every way the socket delivers its bytes (any split, interrupted calls in between) it returns
  packet \<open>p\<close> and leaves \<open>rest\<close> unread exactly when \<open>pop_packet\<close> decodes the readable bytes so. In
  particular it does return whenever a whole packet is readable.\<close>

theorem recv_is_pop_packet:
  "(\<exists>s'. recv_packet_blocking s = Some (Inr p, s') \<and> readable (rx s') = rest) \<longleftrightarrow>
     pop_packet (readable (rx s)) = (Some p, rest)"
  using recv_sound recv_complete by blast

text \<open>End to end over a socket: when \<open>send_packet_blocking\<close> reports success, whatever partial
  writes the kernel made of it, a peer that reads the bytes it put on the wire receives exactly
  that packet, and the bytes that follow stay unread.\<close>

lemma send_recv_roundtrip:
  assumes "packet_ok p" and "send_packet_blocking p s = Some (Inr (), s')"
    and "readable (rx peer) = drop (length (wire s)) (wire s') @ later"
  shows "\<exists>peer'. recv_packet_blocking peer = Some (Inr p, peer') \<and> readable (rx peer') = later"
proof -
  from assms(2) have "wire s' = wire s @ packet_bytes p"
    unfolding send_packet_blocking_def by (simp add: write_all_ok)
  with assms(3) have "readable (rx peer) = packet_bytes p @ later" by simp
  then show ?thesis using assms(1) by (intro recv_complete) (simp add: pop_packet_bytes)
qed

text \<open>C40: After a header that announces more than \<open>MAX_PAYLOAD\<close> bytes the server empties its buffer and
  keeps the connection, so whether a valid packet sent right behind it is carried out depends on
  how the two happened to be read: lost when they arrive in one read, executed when they do not.\<close>

theorem oversize_depends_on_reads:
  assumes "packet_ok p" and "MAX_PAYLOAD < unat n"
  shows "feed pop_all [] [u32_to_ne_bytes ty @ u32_to_ne_bytes n @ packet_bytes p] = ([], []) \<and>
    feed pop_all [] [u32_to_ne_bytes ty @ u32_to_ne_bytes n, packet_bytes p] = ([p], [])"
proof -
  have "pop_all (u32_to_ne_bytes ty @ u32_to_ne_bytes n @ rest) = ([], [])" for rest
    by (subst pop_all.simps) (simp add: pop_oversize [OF assms(2)])
  from this [of "[]"] this show ?thesis
    using pk.drain_Cons [OF assms(1), of "[]"] pk.drain_idle [OF pk.dec_Nil] by simp
qed

theorem oversize_depends_on_reads_witness:
  "feed pop_all [] [u32_to_ne_bytes 0 @ u32_to_ne_bytes 5000 @ packet_bytes \<lparr>mtyp = 2, payload = []\<rparr>] = ([], []) \<and>
    feed pop_all [] [u32_to_ne_bytes 0 @ u32_to_ne_bytes 5000, packet_bytes \<lparr>mtyp = 2, payload = []\<rparr>] =
      ([\<lparr>mtyp = 2, payload = []\<rparr>], [])"
  by (rule oversize_depends_on_reads) (simp_all add: packet_ok_def MAX_PAYLOAD_def)

end
