(* ===== verification/History.thy ===== *)
theory History
  imports Prelude
begin

text \<open>
  The scrollback of a session: \<open>struct History\<close> of \<open>main.rs\<close> with \<open>new\<close>, \<open>append\<close> and
  \<open>snapshot\<close>. A \<open>VecDeque\<close> of bytes is the list of its elements, front first. The locale
  \<open>bounded_log\<close> is what the server relies on, that the log keeps the last \<open>cap\<close> bytes ever
  appended; its interpretation \<open>hist\<close> proves the law for the code's ring buffer.
\<close>

definition HISTORY_CAP :: nat where
  "HISTORY_CAP = 1024 * 1024"

record history =
  hbytes :: bytes

definition history_new :: history where
  "history_new = \<lparr>hbytes = []\<rparr>"

text \<open>
  The loop that pops from the front while old and new bytes together exceed the capacity; it
  is entered with fewer than \<open>HISTORY_CAP\<close> new bytes, so it stops before the deque is empty.
\<close>

fun make_room :: "nat \<Rightarrow> bytes \<Rightarrow> bytes" where
  "make_room d [] = []"
| "make_room d (b # bs) = (if length (b # bs) + d > HISTORY_CAP then make_room d bs else b # bs)"

definition history_append :: "history \<Rightarrow> bytes \<Rightarrow> history" where
  "history_append h data =
     (if length data \<ge> HISTORY_CAP
      then h\<lparr>hbytes := drop (length data - HISTORY_CAP) data\<rparr>
      else h\<lparr>hbytes := make_room (length data) (hbytes h) @ data\<rparr>)"

definition snapshot :: "history \<Rightarrow> bytes" where
  "snapshot h = hbytes h"

subsection \<open>What a bounded log promises\<close>

locale bounded_log =
  fixes append :: "'h \<Rightarrow> 'a list \<Rightarrow> 'h"
    and contents :: "'h \<Rightarrow> 'a list"
    and cap :: nat
  assumes contents_append: "contents (append h data) = last_n cap (contents h @ data)"
begin

lemma contents_bounded: "length (contents (append h data)) \<le> cap"
  by (simp add: contents_append)

lemma contents_fold:
  "length (contents h) \<le> cap \<Longrightarrow>
     contents (fold (\<lambda>d h. append h d) ds h) = last_n cap (contents h @ concat ds)"
proof (induction ds arbitrary: h)
  case (Cons d ds)
  then show ?case by (simp add: contents_append last_n_last_n_append)
qed simp

text \<open>How the data is cut into appends does not matter.\<close>

lemma append_append:
  "contents (append (append h d) e) = contents (append h (d @ e))"
  by (simp add: contents_append last_n_last_n_append)

end

lemma make_room_last_n: "d \<le> HISTORY_CAP \<Longrightarrow> make_room d bs = last_n (HISTORY_CAP - d) bs"
proof (induction bs)
  case (Cons b bs)
  then show ?case
    by (cases "length (b # bs) + d > HISTORY_CAP") (auto simp: last_n_def Suc_diff_le)
qed (simp add: last_n_def)

interpretation hist: bounded_log history_append snapshot HISTORY_CAP
proof
  fix h data
  show "snapshot (history_append h data) = last_n HISTORY_CAP (snapshot h @ data)"
  proof (cases "length data \<ge> HISTORY_CAP")
    case True
    then show ?thesis by (simp add: history_append_def snapshot_def last_n_def)
  next
    case False
    then show ?thesis
      by (simp add: history_append_def snapshot_def last_n_append make_room_last_n)
  qed
qed

lemma snapshot_new [simp]: "snapshot history_new = []"
  by (simp add: snapshot_def history_new_def)

text \<open>C16: The history holds the last \<open>HISTORY_CAP\<close> bytes (1 MiB) of everything ever appended to it,
  in order, whatever the sizes of the appended pieces, including pieces larger than the whole
  buffer; so it never exceeds its capacity and loses only the oldest bytes.\<close>

theorem history_is_tail:
  "snapshot (fold (\<lambda>d h. history_append h d) ds history_new) = last_n HISTORY_CAP (concat ds)"
  using hist.contents_fold [of history_new ds] by simp

end
