(* ===== verification/Outbound.thy ===== *)
theory Outbound
  imports Wire History
begin

text \<open>
  The server's side of one connection: \<open>struct Client\<close> with its outbound queue,
  \<open>try_flush_client\<close>, \<open>send_packet_nonblocking\<close>, and the two senders built on them,
  \<open>send_history\<close> and \<open>broadcast_content\<close>. Every client in the server's vector has been set
  nonblocking, so a write that finds no scripted answer left answers \<open>EAGAIN\<close>. The queue is the
  list of its bytes; the code offers the kernel the first contiguous slice of the ring buffer,
  a nonempty prefix of the queue, and the answer says how many of its bytes were taken, so
  offering the whole queue admits every answer the code can see. The locale \<open>fifo_sender\<close> is
  the contract of a packet sender; both the queued and the blocking sender are instances.
\<close>

definition SEND_QUEUE_CAP :: nat where
  "SEND_QUEUE_CAP = 16 * 1024 * 1024"

record client =
  stream :: sock
  buf :: bytes
  attached :: bool
  flags :: u32
  disconnected :: bool
  send_queue :: bytes
  close_after_drain :: "nat option"

definition saturating_add :: "nat \<Rightarrow> nat \<Rightarrow> nat" where
  "saturating_add a b = min (a + b) (2 ^ 64 - 1)"

fun flush_loop ::
  "write_answer list \<Rightarrow> bytes \<Rightarrow> unit io_result \<times> write_answer list \<times> bytes \<times> bytes" where
  "flush_loop ws [] = (Inr (), ws, [], [])"
| "flush_loop [] q = (Inr (), [], q, [])"
| "flush_loop (Count n # ws) q =
     (if n = 0 then (Inl (IoError WriteZero ''client send returned 0''), ws, q, [])
      else case flush_loop ws (drop n q) of (r, ws', q', acc) \<Rightarrow> (r, ws', q', take n q @ acc))"
| "flush_loop (WriteErr e # ws) q =
     (if err_kind e = WouldBlock then (Inr (), ws, q, [])
      else if err_kind e = Interrupted then flush_loop ws q
      else (Inl e, ws, q, []))"

definition try_flush_client :: "client \<Rightarrow> unit io_result \<times> client" where
  "try_flush_client c =
     (case flush_loop (tx (stream c)) (send_queue c) of
        (r, ws, q, acc) \<Rightarrow>
          (r, c\<lparr>stream := (stream c)\<lparr>tx := ws, wire := wire (stream c) @ acc\<rparr>, send_queue := q\<rparr>))"

definition send_packet_nonblocking :: "client \<Rightarrow> packet \<Rightarrow> unit io_result \<times> client" where
  "send_packet_nonblocking c pkt =
     (let bytes = packet_bytes pkt
      in if saturating_add (length (send_queue c)) (length bytes) > SEND_QUEUE_CAP
         then (Inl (IoError WriteZero ''client send queue overflow''), c)
         else try_flush_client (c\<lparr>send_queue := send_queue c @ bytes\<rparr>))"

text \<open>The loop of \<open>send_history\<close> over the chunks: whether it got through, and the client.\<close>

fun replay_chunks :: "bytes list \<Rightarrow> client \<Rightarrow> bool \<times> client" where
  "replay_chunks [] c = (True, c)"
| "replay_chunks (ch # chs) c =
     (case send_packet_nonblocking c \<lparr>mtyp = MSG_CONTENT, payload = ch\<rparr> of
        (Inl e, c') \<Rightarrow> (False, c'\<lparr>disconnected := True\<rparr>)
      | (Inr u, c') \<Rightarrow> replay_chunks chs c')"

definition send_history :: "client \<Rightarrow> history \<Rightarrow> bool \<Rightarrow> client" where
  "send_history c h send_end =
     (case replay_chunks (chunks MAX_PAYLOAD (snapshot h)) c of
        (False, c') \<Rightarrow> c'
      | (True, c') \<Rightarrow>
          if send_end then snd (send_packet_nonblocking c' \<lparr>mtyp = MSG_DUMP_END, payload = []\<rparr>)
          else c')"

definition broadcast_one :: "bytes \<Rightarrow> client \<Rightarrow> client" where
  "broadcast_one bs c =
     (case send_packet_nonblocking c \<lparr>mtyp = MSG_CONTENT, payload = bs\<rparr> of
        (Inl e, c') \<Rightarrow> c'\<lparr>disconnected := True\<rparr>
      | (Inr u, c') \<Rightarrow> c')"

definition broadcast_content :: "client list \<Rightarrow> bytes \<Rightarrow> client list" where
  "broadcast_content cs bs = map (\<lambda>c. if attached c then broadcast_one bs c else c) cs"

text \<open>Everything the server has committed to a client: on the wire, then still queued.\<close>

definition outbound :: "client \<Rightarrow> bytes" where
  "outbound c = wire (stream c) @ send_queue c"

subsection \<open>Flushing moves bytes, in order, and changes nothing else\<close>

lemma flush_loop_split:
  "flush_loop ws q = (r, ws', q', acc) \<Longrightarrow> acc @ q' = q"
proof (induction ws q arbitrary: r ws' q' acc rule: flush_loop.induct)
  case (3 n ws b q)
  show ?case
  proof (cases "n = 0")
    case False
    with "3.prems" obtain acc' where
      "flush_loop ws (drop n (b # q)) = (r, ws', q', acc')" "acc = take n (b # q) @ acc'"
      by (auto split: prod.splits)
    with "3.IH" [OF False] show ?thesis by (metis append.assoc append_take_drop_id)
  qed (use "3.prems" in simp)
qed (auto split: if_splits)

text \<open>A socket that is slow but not broken: it takes bytes, asks to wait, or is interrupted.\<close>

fun good_write :: "write_answer \<Rightarrow> bool" where
  "good_write (Count n) \<longleftrightarrow> 0 < n"
| "good_write (WriteErr e) \<longleftrightarrow> err_kind e = WouldBlock \<or> err_kind e = Interrupted"

definition healthy :: "client \<Rightarrow> bool" where
  "healthy c \<longleftrightarrow> list_all good_write (tx (stream c))"

lemma flush_loop_good:
  "flush_loop ws q = (r, ws', q', acc) \<Longrightarrow> list_all good_write ws \<Longrightarrow>
     r = Inr () \<and> list_all good_write ws'"
proof (induction ws q arbitrary: r ws' q' acc rule: flush_loop.induct)
  case (3 n ws b q)
  show ?case
  proof (cases "flush_loop ws (drop n (b # q))")
    case (fields r1 ws1 q1 acc1)
    with "3.IH" [OF _ fields] "3.prems" show ?thesis by simp
  qed
qed (auto split: if_splits)

lemma try_flush_outbound [simp]: "outbound (snd (try_flush_client c)) = outbound c"
proof (cases "flush_loop (tx (stream c)) (send_queue c)")
  case (fields r ws q acc)
  then show ?thesis
    using flush_loop_split [OF fields] by (simp add: try_flush_client_def outbound_def)
qed

lemma try_flush_keeps [keeps, simp]:
  "buf (snd (try_flush_client c)) = buf c"
  "attached (snd (try_flush_client c)) = attached c"
  "flags (snd (try_flush_client c)) = flags c"
  "disconnected (snd (try_flush_client c)) = disconnected c"
  "close_after_drain (snd (try_flush_client c)) = close_after_drain c"
  "rx (stream (snd (try_flush_client c))) = rx (stream c)"
  by (simp_all add: try_flush_client_def split: prod.splits)

lemma try_flush_wire: "prefix (wire (stream c)) (wire (stream (snd (try_flush_client c))))"
  by (simp add: try_flush_client_def split: prod.splits)

lemma try_flush_queue: "suffix (send_queue (snd (try_flush_client c))) (send_queue c)"
proof (cases "flush_loop (tx (stream c)) (send_queue c)")
  case (fields r ws q acc)
  then show ?thesis
    using flush_loop_split [OF fields] by (simp add: try_flush_client_def suffix_def) metis
qed

lemma try_flush_queue_le: "length (send_queue (snd (try_flush_client c))) \<le> length (send_queue c)"
  using try_flush_queue by (rule suffix_length_le)

subsection \<open>Queueing a packet\<close>

definition queue_fits :: "client \<Rightarrow> packet \<Rightarrow> bool" where
  "queue_fits c p \<longleftrightarrow> length (send_queue c) + length (packet_bytes p) \<le> SEND_QUEUE_CAP"

lemma saturating_guard: "saturating_add a b > SEND_QUEUE_CAP \<longleftrightarrow> a + b > SEND_QUEUE_CAP"
  by (auto simp: saturating_add_def SEND_QUEUE_CAP_def min_def)

lemma send_nonblocking_cases:
  "send_packet_nonblocking c p =
     (if queue_fits c p then try_flush_client (c\<lparr>send_queue := send_queue c @ packet_bytes p\<rparr>)
      else (Inl (IoError WriteZero ''client send queue overflow''), c))"
  by (simp add: send_packet_nonblocking_def Let_def saturating_guard queue_fits_def)

lemma send_nonblocking_keeps [keeps, simp]:
  "buf (snd (send_packet_nonblocking c p)) = buf c"
  "attached (snd (send_packet_nonblocking c p)) = attached c"
  "flags (snd (send_packet_nonblocking c p)) = flags c"
  "disconnected (snd (send_packet_nonblocking c p)) = disconnected c"
  "close_after_drain (snd (send_packet_nonblocking c p)) = close_after_drain c"
  "rx (stream (snd (send_packet_nonblocking c p))) = rx (stream c)"
  by (simp_all add: send_nonblocking_cases)

lemma send_nonblocking_outbound:
  "outbound (snd (send_packet_nonblocking c p)) = outbound c @ (if queue_fits c p then packet_bytes p else [])"
  by (simp add: send_nonblocking_cases outbound_def [of "c\<lparr>send_queue := send_queue c @ packet_bytes p\<rparr>"])
    (simp add: outbound_def)

lemma send_nonblocking_wire: "prefix (wire (stream c)) (wire (stream (snd (send_packet_nonblocking c p))))"
  using try_flush_wire [of "c\<lparr>send_queue := send_queue c @ packet_bytes p\<rparr>"]
  by (simp add: send_nonblocking_cases)

lemma send_nonblocking_queue:
  "length (send_queue c) \<le> SEND_QUEUE_CAP \<Longrightarrow>
     length (send_queue (snd (send_packet_nonblocking c p))) \<le> SEND_QUEUE_CAP"
  using try_flush_queue_le [of "c\<lparr>send_queue := send_queue c @ packet_bytes p\<rparr>"]
  by (auto simp: send_nonblocking_cases queue_fits_def)

lemma send_nonblocking_queue_le:
  "length (send_queue (snd (send_packet_nonblocking c p))) \<le> length (send_queue c) + length (packet_bytes p)"
  using try_flush_queue_le [of "c\<lparr>send_queue := send_queue c @ packet_bytes p\<rparr>"]
  by (auto simp: send_nonblocking_cases)

lemma send_nonblocking_ok: "send_packet_nonblocking c p = (Inr (), c') \<Longrightarrow> queue_fits c p"
  by (auto simp: send_nonblocking_cases split: if_splits)

lemma send_nonblocking_healthy:
  assumes "healthy c" "queue_fits c p"
  shows "fst (send_packet_nonblocking c p) = Inr () \<and> healthy (snd (send_packet_nonblocking c p))"
proof (cases "flush_loop (tx (stream c)) (send_queue c @ packet_bytes p)")
  case (fields r ws q acc)
  with flush_loop_good [OF fields] assms show ?thesis
    by (simp add: send_nonblocking_cases try_flush_client_def healthy_def)
qed

subsection \<open>The contract of a packet sender\<close>

text \<open>Sending packets one after the other, stopping at the first error (\<open>?\<close> in the source).\<close>

fun send_seq ::
  "(packet \<Rightarrow> 'c \<Rightarrow> (unit io_result \<times> 'c) option) \<Rightarrow> packet list \<Rightarrow> 'c \<Rightarrow> (unit io_result \<times> 'c) option" where
  "send_seq send [] c = Some (Inr (), c)"
| "send_seq send (p # ps) c =
     (case send p c of
        None \<Rightarrow> None
      | Some (Inl e, c') \<Rightarrow> Some (Inl e, c')
      | Some (Inr u, c') \<Rightarrow> send_seq send ps c')"

definition encode :: "packet list \<Rightarrow> bytes" where
  "encode ps = concat (map packet_bytes ps)"

lemma encode_simps [frame_simps, simp]:
  "encode [] = []" "encode (p # ps) = packet_bytes p @ encode ps"
  "encode (ps @ qs) = encode ps @ encode qs"
  by (simp_all add: encode_def)

locale fifo_sender =
  fixes send :: "packet \<Rightarrow> 'c \<Rightarrow> (unit io_result \<times> 'c) option"
    and out :: "'c \<Rightarrow> bytes"
  assumes send_ok: "send p c = Some (Inr (), c') \<Longrightarrow> out c' = out c @ packet_bytes p"
    and send_err: "send p c = Some (Inl e, c') \<Longrightarrow> \<exists>acc. prefix acc (packet_bytes p) \<and> out c' = out c @ acc"
begin

lemma send_seq_ok:
  "send_seq send ps c = Some (Inr (), c') \<Longrightarrow> out c' = out c @ encode ps"
  by (induction ps arbitrary: c) (auto simp: send_ok split: option.splits sum.splits prod.splits)

text \<open>Whatever goes wrong, the receiver sees a prefix of the packets' bytes.\<close>

lemma send_seq_prefix:
  "send_seq send ps c = Some (r, c') \<Longrightarrow>
     \<exists>acc. prefix acc (encode ps) \<and> out c' = out c @ acc"
proof (induction ps arbitrary: c)
  case (Cons p ps)
  then obtain r1 c1 where s: "send p c = Some (r1, c1)" by (auto split: option.splits)
  show ?case
  proof (cases r1)
    case (Inl e)
    with s Cons.prems send_err [of p c e c1] show ?thesis by (auto intro: prefix_prefix)
  next
    case (Inr u)
    with s Cons.prems have "send_seq send ps c1 = Some (r, c')" by simp
    from Cons.IH [OF this] obtain acc where
      "prefix acc (encode ps)" "out c' = out c1 @ acc" by blast
    moreover have "out c1 = out c @ packet_bytes p" using s Inr by (simp add: send_ok)
    ultimately show ?thesis by (intro exI [of _ "packet_bytes p @ acc"]) simp
  qed
qed simp

end

text \<open>A sender that commits whole packets only: on an error nothing, or all, of the packet is out.\<close>

locale whole_sender = fifo_sender +
  assumes send_whole: "send p c = Some (Inl e, c') \<Longrightarrow> out c' = out c \<or> out c' = out c @ packet_bytes p"
begin

lemma send_seq_whole:
  "send_seq send ps c = Some (r, c') \<Longrightarrow> \<exists>qs. prefix qs ps \<and> out c' = out c @ encode qs"
proof (induction ps arbitrary: c)
  case (Cons p ps)
  then obtain r1 c1 where s: "send p c = Some (r1, c1)" by (auto split: option.splits)
  show ?case
  proof (cases r1)
    case (Inl e)
    with s Cons.prems send_whole [of p c e c1] have "out c' = out c @ encode [] \<or> out c' = out c @ encode [p]"
      by auto
    then show ?thesis by (metis Cons_prefix_Cons Nil_prefix)
  next
    case (Inr u)
    with s Cons.prems have "send_seq send ps c1 = Some (r, c')" by simp
    from Cons.IH [OF this] obtain qs where "prefix qs ps" "out c' = out c1 @ encode qs" by blast
    moreover have "out c1 = out c @ packet_bytes p" using s Inr by (simp add: send_ok)
    ultimately show ?thesis by (intro exI [of _ "p # qs"]) simp
  qed
qed simp

end

definition queued_send :: "packet \<Rightarrow> client \<Rightarrow> (unit io_result \<times> client) option" where
  "queued_send p c = Some (send_packet_nonblocking c p)"

interpretation blocking: fifo_sender send_packet_blocking wire
proof
  fix p s s' e
  show "send_packet_blocking p s = Some (Inr (), s') \<Longrightarrow> wire s' = wire s @ packet_bytes p"
    unfolding send_packet_blocking_def by (simp add: write_all_ok)
  show "send_packet_blocking p s = Some (Inl e, s') \<Longrightarrow>
      \<exists>acc. prefix acc (packet_bytes p) \<and> wire s' = wire s @ acc"
    unfolding send_packet_blocking_def using write_all_prefix by blast
qed

interpretation queued: whole_sender queued_send outbound
proof
  fix p c c' e
  show "queued_send p c = Some (Inr (), c') \<Longrightarrow> outbound c' = outbound c @ packet_bytes p"
    using send_nonblocking_outbound [of c p] send_nonblocking_ok [of c p c']
    by (simp add: queued_send_def)
  show "queued_send p c = Some (Inl e, c') \<Longrightarrow>
      \<exists>acc. prefix acc (packet_bytes p) \<and> outbound c' = outbound c @ acc"
    using send_nonblocking_outbound [of c p] by (auto simp: queued_send_def)
  show "queued_send p c = Some (Inl e, c') \<Longrightarrow> outbound c' = outbound c \<or> outbound c' = outbound c @ packet_bytes p"
    using send_nonblocking_outbound [of c p] by (auto simp: queued_send_def)
qed

subsection \<open>Replaying the history and broadcasting\<close>

definition content :: "bytes \<Rightarrow> packet" where
  "content bs = \<lparr>mtyp = MSG_CONTENT, payload = bs\<rparr>"

definition replay_packets :: "history \<Rightarrow> packet list" where
  "replay_packets h = map content (chunks MAX_PAYLOAD (snapshot h))"

lemma replay_chunks_Cons [simp]:
  "replay_chunks (ch # chs) c =
     (case send_packet_nonblocking c (content ch) of
        (Inl e, c') \<Rightarrow> (False, c'\<lparr>disconnected := True\<rparr>)
      | (Inr u, c') \<Rightarrow> replay_chunks chs c')"
  by (simp add: content_def)

declare replay_chunks.simps(2) [simp del]

lemma replay_chunks_seq:
  "replay_chunks chs c =
     (case the (send_seq queued_send (map content chs) c) of
        (Inl e, c') \<Rightarrow> (False, c'\<lparr>disconnected := True\<rparr>)
      | (Inr u, c') \<Rightarrow> (True, c'))"
  by (induction chs arbitrary: c) (auto simp: queued_send_def split: prod.splits sum.splits)

lemma send_seq_queued_Some: "send_seq queued_send ps c \<noteq> None"
  by (induction ps arbitrary: c) (auto simp: queued_send_def split: prod.splits sum.splits)

lemma replay_chunks_ok:
  "replay_chunks chs c = (True, c') \<Longrightarrow> outbound c' = outbound c @ encode (map content chs)"
  using queued.send_seq_ok [of "map content chs" c c'] send_seq_queued_Some [of "map content chs" c]
  by (auto simp: replay_chunks_seq split: option.splits sum.splits)

lemma replay_chunks_prefix:
  "replay_chunks chs c = (b, c') \<Longrightarrow>
     \<exists>acc. prefix acc (encode (map content chs)) \<and> outbound c' = outbound c @ acc"
  using queued.send_seq_prefix [of "map content chs" c] send_seq_queued_Some [of "map content chs" c]
  by (fastforce simp: replay_chunks_seq encode_def outbound_def split: option.splits sum.splits)

lemma replay_chunks_keeps:
  "replay_chunks chs c = (b, c') \<Longrightarrow>
     buf c' = buf c \<and> attached c' = attached c \<and> flags c' = flags c \<and>
     close_after_drain c' = close_after_drain c \<and> rx (stream c') = rx (stream c) \<and>
     disconnected c' = (\<not> b \<or> disconnected c)"
proof (induction chs arbitrary: c)
  case (Cons ch chs)
  let ?s = "send_packet_nonblocking c (content ch)"
  show ?case
  proof (cases "fst ?s")
    case (Inl e)
    with Cons.prems show ?thesis using send_nonblocking_keeps [of c "content ch"]
      by (cases ?s) auto
  next
    case (Inr u)
    with Cons.prems have "replay_chunks chs (snd ?s) = (b, c')" by (cases ?s) auto
    from Cons.IH [OF this] show ?thesis by simp
  qed
qed simp

lemma replay_chunks_queue:
  "replay_chunks chs c = (b, c') \<Longrightarrow> length (send_queue c) \<le> SEND_QUEUE_CAP \<Longrightarrow>
     length (send_queue c') \<le> SEND_QUEUE_CAP"
proof (induction chs arbitrary: c)
  case (Cons ch chs)
  let ?s = "send_packet_nonblocking c (content ch)"
  have q: "length (send_queue (snd ?s)) \<le> SEND_QUEUE_CAP"
    using Cons.prems(2) by (rule send_nonblocking_queue)
  show ?case using Cons.IH [OF _ q] Cons.prems(1) q by (cases ?s; cases "fst ?s") auto
qed simp

lemma replay_chunks_healthy:
  "healthy c \<Longrightarrow> length (send_queue c) + length (encode (map content chs)) \<le> SEND_QUEUE_CAP \<Longrightarrow>
     \<exists>c'. replay_chunks chs c = (True, c') \<and> healthy c' \<and>
       length (send_queue c') \<le> length (send_queue c) + length (encode (map content chs))"
proof (induction chs arbitrary: c)
  case (Cons ch chs)
  let ?p = "content ch"
  let ?s = "send_packet_nonblocking c ?p"
  have "queue_fits c ?p" using Cons.prems(2) by (simp add: queue_fits_def)
  then have ok: "fst ?s = Inr ()" "healthy (snd ?s)"
    using send_nonblocking_healthy Cons.prems(1) by blast+
  have len: "length (send_queue (snd ?s)) \<le> length (send_queue c) + length (packet_bytes ?p)"
    by (rule send_nonblocking_queue_le)
  with Cons.prems(2) have "length (send_queue (snd ?s)) + length (encode (map content chs)) \<le> SEND_QUEUE_CAP"
    by simp
  from Cons.IH [OF ok(2) this] ok(1) len show ?case
    by (cases ?s) auto
qed simp

lemma length_encode_content: "length (encode (map content chs)) = 8 * length chs + length (concat chs)"
  by (induction chs) (simp_all add: content_def)

text \<open>A full replay costs 257 headers: at most 1050632 bytes of queue.\<close>

lemma length_replay:
  assumes "length (snapshot h) \<le> HISTORY_CAP"
  shows "length (encode (replay_packets h)) \<le> 1050632"
proof -
  have "4088 * length (chunks MAX_PAYLOAD (snapshot h)) \<le> length (snapshot h) + 4087"
    using length_chunks_bound [of MAX_PAYLOAD "snapshot h"] by (simp add: MAX_PAYLOAD_def)
  with assms have "length (chunks MAX_PAYLOAD (snapshot h)) \<le> 257" by (simp add: HISTORY_CAP_def)
  with assms show ?thesis by (simp add: replay_packets_def length_encode_content HISTORY_CAP_def)
qed

lemma replay_packets_ok: "list_all packet_ok (replay_packets h)"
  by (auto simp: replay_packets_def list_all_iff packet_ok_def content_def dest: chunks_bounds)

lemma replay_packets_content: "concat (map payload (replay_packets h)) = snapshot h"
  by (simp add: replay_packets_def content_def comp_def)

lemma replay_chunks_fields [keeps, simp]:
  "buf (snd (replay_chunks chs c)) = buf c"
  "attached (snd (replay_chunks chs c)) = attached c"
  "flags (snd (replay_chunks chs c)) = flags c"
  "close_after_drain (snd (replay_chunks chs c)) = close_after_drain c"
  "rx (stream (snd (replay_chunks chs c))) = rx (stream c)"
  "disconnected (snd (replay_chunks chs c)) = (\<not> fst (replay_chunks chs c) \<or> disconnected c)"
  using replay_chunks_keeps [OF prod.collapse [symmetric]] by simp_all

definition dump_end :: packet where
  "dump_end = \<lparr>mtyp = MSG_DUMP_END, payload = []\<rparr>"

lemma send_history_alt:
  "send_history c h e =
     (let s = replay_chunks (chunks MAX_PAYLOAD (snapshot h)) c
      in if fst s \<and> e then snd (send_packet_nonblocking (snd s) dump_end) else snd s)"
  by (simp add: send_history_def dump_end_def Let_def split: prod.splits bool.splits)

lemma send_history_keeps [keeps, simp]:
  "buf (send_history c h e) = buf c"
  "attached (send_history c h e) = attached c"
  "flags (send_history c h e) = flags c"
  "close_after_drain (send_history c h e) = close_after_drain c"
  "rx (stream (send_history c h e)) = rx (stream c)"
  "disconnected c \<Longrightarrow> disconnected (send_history c h e)"
  by (simp_all add: send_history_alt Let_def)

lemma send_history_queue:
  assumes "length (send_queue c) \<le> SEND_QUEUE_CAP"
  shows "length (send_queue (send_history c h e)) \<le> SEND_QUEUE_CAP"
  using replay_chunks_queue [OF prod.collapse [symmetric] assms] send_nonblocking_queue
  by (simp add: send_history_alt Let_def)

lemma send_history_prefix:
  "\<exists>acc. prefix acc (encode (replay_packets h @ (if e then [dump_end] else []))) \<and>
         outbound (send_history c h e) = outbound c @ acc"
proof -
  let ?r = "replay_chunks (chunks MAX_PAYLOAD (snapshot h)) c"
  obtain acc where acc: "prefix acc (encode (replay_packets h))" "outbound (snd ?r) = outbound c @ acc"
    using replay_chunks_prefix [OF prod.collapse [symmetric]] unfolding replay_packets_def by blast
  show ?thesis
  proof (cases "fst ?r \<and> e")
    case True
    then have "outbound (snd ?r) = outbound c @ encode (replay_packets h)"
      using replay_chunks_ok [of "chunks MAX_PAYLOAD (snapshot h)" c "snd ?r"]
      by (metis prod.collapse replay_packets_def)
    with True show ?thesis
      by (intro exI [of _ "encode (replay_packets h) @ (if queue_fits (snd ?r) dump_end then packet_bytes dump_end else [])"])
        (simp add: send_history_alt Let_def send_nonblocking_outbound)
  next
    case False
    with acc show ?thesis by (intro exI [of _ acc]) (auto simp: send_history_alt Let_def prefix_prefix)
  qed
qed

text \<open>A connected client that is still connected after a replay has got all of it.\<close>

lemma send_history_complete:
  assumes "\<not> disconnected (send_history c h False)"
  shows "outbound (send_history c h False) = outbound c @ encode (replay_packets h)"
proof -
  let ?r = "replay_chunks (chunks MAX_PAYLOAD (snapshot h)) c"
  from assms have "fst ?r" by (simp add: send_history_alt Let_def)
  then have "?r = (True, snd ?r)" by (metis prod.collapse)
  from replay_chunks_ok [OF this] show ?thesis
    by (simp add: send_history_alt Let_def replay_packets_def)
qed

lemma broadcast_one_alt:
  "broadcast_one bs c =
     (let s = send_packet_nonblocking c (content bs)
      in if isl (fst s) then (snd s)\<lparr>disconnected := True\<rparr> else snd s)"
  by (simp add: broadcast_one_def content_def split: prod.splits sum.splits)

lemma broadcast_one_keeps [keeps, simp]:
  "buf (broadcast_one bs c) = buf c"
  "attached (broadcast_one bs c) = attached c"
  "flags (broadcast_one bs c) = flags c"
  "close_after_drain (broadcast_one bs c) = close_after_drain c"
  "rx (stream (broadcast_one bs c)) = rx (stream c)"
  "disconnected c \<Longrightarrow> disconnected (broadcast_one bs c)"
  by (simp_all add: broadcast_one_alt Let_def)

lemma broadcast_one_queue:
  "length (send_queue c) \<le> SEND_QUEUE_CAP \<Longrightarrow> length (send_queue (broadcast_one bs c)) \<le> SEND_QUEUE_CAP"
  using send_nonblocking_queue [of c "content bs"] by (simp add: broadcast_one_alt Let_def)

lemma outbound_disconnected [simp]: "outbound (c\<lparr>disconnected := b\<rparr>) = outbound c"
  by (simp add: outbound_def)

lemma broadcast_one_prefix:
  "\<exists>acc. prefix acc (packet_bytes (content bs)) \<and> outbound (broadcast_one bs c) = outbound c @ acc"
  using send_nonblocking_outbound [of c "content bs"]
  by (auto simp: broadcast_one_alt Let_def)

lemma broadcast_one_outbound:
  assumes "\<not> disconnected (broadcast_one bs c)"
  shows "outbound (broadcast_one bs c) = outbound c @ packet_bytes (content bs)"
proof (cases "send_packet_nonblocking c (content bs)")
  case (Pair r c')
  with assms have "r = Inr ()" by (cases r) (simp_all add: broadcast_one_alt)
  with Pair send_nonblocking_ok [of c "content bs" c'] send_nonblocking_outbound [of c "content bs"]
  show ?thesis by (simp add: broadcast_one_alt)
qed

text \<open>Sending does not look at the receive buffer.\<close>

lemma try_flush_buf:
  "try_flush_client (c\<lparr>buf := b\<rparr>) = (fst (try_flush_client c), (snd (try_flush_client c))\<lparr>buf := b\<rparr>)"
  by (simp add: try_flush_client_def split: prod.split)

lemma queue_then_buf: "c\<lparr>send_queue := q, buf := b\<rparr> = c\<lparr>buf := b, send_queue := q\<rparr>"
  by simp

lemma send_nonblocking_buf:
  "send_packet_nonblocking (c\<lparr>buf := b\<rparr>) p =
     (fst (send_packet_nonblocking c p), (snd (send_packet_nonblocking c p))\<lparr>buf := b\<rparr>)"
  using try_flush_buf [where c = "c\<lparr>send_queue := send_queue c @ packet_bytes p\<rparr>" and b = b, unfolded queue_then_buf]
  by (simp add: send_nonblocking_cases queue_fits_def)

lemma replay_chunks_buf:
  "replay_chunks chs (c\<lparr>buf := b\<rparr>) = (fst (replay_chunks chs c), (snd (replay_chunks chs c))\<lparr>buf := b\<rparr>)"
proof (induction chs arbitrary: c)
  case (Cons ch chs)
  then show ?case
    by (cases "send_packet_nonblocking c (content ch)"; cases "fst (send_packet_nonblocking c (content ch))")
      (simp_all add: send_nonblocking_buf)
qed simp

lemma send_history_buf: "send_history (c\<lparr>buf := b\<rparr>) h e = (send_history c h e)\<lparr>buf := b\<rparr>"
  by (simp add: send_history_alt Let_def replay_chunks_buf send_nonblocking_buf)

subsection \<open>Clients are only ever sent whole packets\<close>

definition grows :: "client \<Rightarrow> client \<Rightarrow> bool" where
  "grows c c' \<longleftrightarrow> (\<exists>ps. list_all packet_ok ps \<and> outbound c' = outbound c @ encode ps)"

lemma grows_same: "outbound c' = outbound c \<Longrightarrow> grows c c'"
  unfolding grows_def by (intro exI [of _ "[]"]) simp

lemma grows_packet: "packet_ok p \<Longrightarrow> outbound c' = outbound c @ packet_bytes p \<Longrightarrow> grows c c'"
  unfolding grows_def by (intro exI [of _ "[p]"]) simp

lemma grows_trans: "grows c c' \<Longrightarrow> grows c' c'' \<Longrightarrow> grows c c''"
  unfolding grows_def by (metis append.assoc encode_simps(3) list_all_append)

lemma grows_send: "packet_ok p \<Longrightarrow> grows c (snd (send_packet_nonblocking c p))"
  using send_nonblocking_outbound [of c p]
  by (cases "queue_fits c p") (auto intro: grows_same grows_packet)

lemma grows_replay:
  assumes "list_all (\<lambda>ch. length ch \<le> MAX_PAYLOAD) chs"
  shows "grows c (snd (replay_chunks chs c))"
proof -
  obtain r c' where r: "send_seq queued_send (map content chs) c = Some (r, c')"
    using send_seq_queued_Some by (metis not_None_eq surj_pair)
  from queued.send_seq_whole [OF r] obtain qs where
    qs: "prefix qs (map content chs)" "outbound c' = outbound c @ encode qs" by blast
  moreover have "outbound (snd (replay_chunks chs c)) = outbound c'"
    by (simp add: replay_chunks_seq r outbound_def split: sum.splits)
  moreover have "list_all packet_ok qs"
    using assms set_mono_prefix [OF qs(1)] by (auto simp: list_all_iff content_def packet_ok_def)
  ultimately show ?thesis unfolding grows_def by auto
qed

lemma grows_send_history: "grows c (send_history c h e)"
proof -
  have "grows c (snd (replay_chunks (chunks MAX_PAYLOAD (snapshot h)) c))" (is "grows c ?c'")
    by (rule grows_replay) (auto simp: list_all_iff dest: chunks_bounds)
  moreover have "grows ?c' (snd (send_packet_nonblocking ?c' dump_end))"
    by (rule grows_send) (simp add: packet_ok_def dump_end_def)
  ultimately show ?thesis by (auto simp: send_history_alt Let_def intro: grows_trans)
qed

lemma grows_broadcast: "length bs \<le> MAX_PAYLOAD \<Longrightarrow> grows c (broadcast_one bs c)"
  using grows_send [of "content bs" c]
  by (auto simp: broadcast_one_alt Let_def packet_ok_def content_def grows_def)

lemma replay_delivers:
  assumes "healthy c" and "length (snapshot h) \<le> HISTORY_CAP"
    and "length (send_queue c) + 1050640 \<le> SEND_QUEUE_CAP"
  shows "outbound (send_history c h e) =
      outbound c @ encode (replay_packets h @ (if e then [dump_end] else [])) \<and>
    concat (map payload (replay_packets h)) = snapshot h \<and>
    disconnected (send_history c h e) = disconnected c"
proof -
  let ?n = "length (encode (replay_packets h))"
  have n: "?n \<le> 1050632" using assms(2) by (rule length_replay)
  with assms(3) have "length (send_queue c) + ?n \<le> SEND_QUEUE_CAP" by simp
  then obtain c' where r: "replay_chunks (chunks MAX_PAYLOAD (snapshot h)) c = (True, c')"
    and q: "length (send_queue c') \<le> length (send_queue c) + ?n"
    using replay_chunks_healthy [OF assms(1)] unfolding replay_packets_def by blast
  have o: "outbound c' = outbound c @ encode (replay_packets h)"
    using replay_chunks_ok [OF r] by (simp add: replay_packets_def)
  have "disconnected c' = disconnected c" using replay_chunks_keeps [OF r] by simp
  moreover have "queue_fits c' dump_end" using q n assms(3) by (simp add: queue_fits_def dump_end_def)
  ultimately show ?thesis
    by (simp add: send_history_alt Let_def r o send_nonblocking_outbound replay_packets_content)
qed

lemmas replay_complete = replay_delivers [THEN conjunct1]

subsection \<open>Properties\<close>

text \<open>The outbound queue is a lossless FIFO in front of the socket: queueing a packet never takes
  back or reorders a byte already on the wire, appends exactly the packet's encoding to what the
  client has been or will be sent when it fits under \<open>SEND_QUEUE_CAP\<close>, and appends nothing at all
  (and reports an overflow) when it does not, so the peer never sees a torn packet.\<close>

lemma queued_packet_is_whole:
  "prefix (wire (stream c)) (wire (stream (snd (send_packet_nonblocking c p)))) \<and>
   outbound (snd (send_packet_nonblocking c p)) =
     outbound c @ (if length (send_queue c) + length (packet_bytes p) \<le> SEND_QUEUE_CAP
                   then packet_bytes p else [])"
  using send_nonblocking_wire [of c p] send_nonblocking_outbound [of c p]
  by (simp add: queue_fits_def)

text \<open>C24: A full history replay always gets through to a slow client: if the socket only delays (partial
  writes, \<open>EAGAIN\<close>, interrupts) and its backlog leaves 1050640 bytes of the 16 MiB cap, then
  \<open>send_history\<close> commits the whole snapshot, cut into packets of at most \<open>MAX_PAYLOAD\<close> bytes,
  then \<open>MSG_DUMP_END\<close> if asked, and does not disconnect the client.\<close>

theorem replay_fits_queue:
  assumes "healthy c" and "length (snapshot h) \<le> HISTORY_CAP"
    and "length (send_queue c) + 1050640 \<le> SEND_QUEUE_CAP"
  shows "outbound (send_history c h e) =
      outbound c @ encode (replay_packets h @ (if e then [dump_end] else [])) \<and>
    concat (map payload (replay_packets h)) = snapshot h \<and>
    disconnected (send_history c h e) = disconnected c"
  using replay_delivers [OF assms] .

theorem replay_fits_queue_witness:
  "outbound (send_history
      \<lparr>stream = \<lparr>rx = [], tx = [Count 5, WriteErr eagain], wire = []\<rparr>, buf = [], attached = True,
       flags = 0, disconnected = False, send_queue = [1, 2], close_after_drain = None\<rparr>
      \<lparr>hbytes = [65, 66]\<rparr> True) =
    [1, 2] @ encode (replay_packets \<lparr>hbytes = [65, 66]\<rparr> @ [dump_end])"
  using replay_fits_queue [of "\<lparr>stream = \<lparr>rx = [], tx = [Count 5, WriteErr eagain], wire = []\<rparr>, buf = [],
      attached = True, flags = 0, disconnected = False, send_queue = [1, 2], close_after_drain = None\<rparr>"
      "\<lparr>hbytes = [65, 66]\<rparr>" True]
  by (simp add: healthy_def eagain_def snapshot_def HISTORY_CAP_def SEND_QUEUE_CAP_def outbound_def)

text \<open>Broadcasting terminal output treats every client by itself: one that has not attached is left
  alone; an attached one either has exactly one more \<open>MSG_CONTENT\<close> packet with those bytes behind
  what it was sent before, or is marked for disconnection; nobody is added, removed or reordered.\<close>

lemma broadcast_is_per_client:
  assumes "i < length cs"
  shows "length (broadcast_content cs bs) = length cs \<and>
    (if attached (cs ! i)
     then disconnected (broadcast_content cs bs ! i) \<or>
       outbound (broadcast_content cs bs ! i) = outbound (cs ! i) @ packet_bytes (content bs)
     else broadcast_content cs bs ! i = cs ! i)"
  using assms broadcast_one_outbound [of bs "cs ! i"] by (simp add: broadcast_content_def) blast

end
