(* ===== verification/Handlers.thy ===== *)
theory Handlers
  imports Main
begin

text \<open>
  The signals: the two statics of \<open>main.rs\<close>, their handlers, and the dispositions that
  \<open>create_session\<close> and \<open>attach_session\<close> install. Signal numbers are those of Linux.
\<close>

subsection \<open>Statics, handlers, dispositions\<close>

record statics =
  WINCH_PENDING :: bool
  SHUTDOWN_REQUESTED :: bool

definition handle_sigwinch :: "statics \<Rightarrow> statics" where
  "handle_sigwinch g = g\<lparr>WINCH_PENDING := True\<rparr>"

definition handle_shutdown_signal :: "statics \<Rightarrow> statics" where
  "handle_shutdown_signal g = g\<lparr>SHUTDOWN_REQUESTED := True\<rparr>"

datatype handler = OnWinch | OnShutdown

fun run_handler :: "handler \<Rightarrow> statics \<Rightarrow> statics" where
  "run_handler OnWinch g = handle_sigwinch g"
| "run_handler OnShutdown g = handle_shutdown_signal g"

lemma run_handler_flag [simp]:
  "SHUTDOWN_REQUESTED (run_handler h g) \<longleftrightarrow> h = OnShutdown \<or> SHUTDOWN_REQUESTED g"
  "WINCH_PENDING (run_handler h g) \<longleftrightarrow> h = OnWinch \<or> WINCH_PENDING g"
  by (cases h; simp add: handle_sigwinch_def handle_shutdown_signal_def)+

datatype disposition = Default | Ignored | Caught handler

definition SIGTERM :: nat where "SIGTERM = 15"

definition SIGWINCH :: nat where "SIGWINCH = 28"

definition SIGHUP :: nat where "SIGHUP = 1"

definition SIGINT :: nat where "SIGINT = 2"

definition SIGPIPE :: nat where "SIGPIPE = 13"

lemmas signal_numbers = SIGHUP_def SIGINT_def SIGPIPE_def SIGTERM_def SIGWINCH_def

text \<open>Delivering a signal; \<open>None\<close>: its default action is taken.\<close>

definition deliver :: "(nat \<Rightarrow> disposition) \<Rightarrow> nat \<Rightarrow> statics \<Rightarrow> statics option" where
  "deliver d sig g =
     (case d sig of Default \<Rightarrow> None | Ignored \<Rightarrow> Some g | Caught h \<Rightarrow> Some (run_handler h g))"

text \<open>The calls of \<open>signal\<close> in the server behind \<open>setsid\<close>, and those around the loop of an attached client.\<close>

definition server_signals :: "(nat \<Rightarrow> disposition) \<Rightarrow> nat \<Rightarrow> disposition" where
  "server_signals d =
     d(SIGPIPE := Ignored, SIGHUP := Ignored, SIGTERM := Caught OnShutdown, SIGINT := Caught OnShutdown)"

definition attach_signals :: "(nat \<Rightarrow> disposition) \<Rightarrow> nat \<Rightarrow> disposition" where
  "attach_signals d = d(SIGWINCH := Caught OnWinch)"

definition detach_signals :: "(nat \<Rightarrow> disposition) \<Rightarrow> nat \<Rightarrow> disposition" where
  "detach_signals d = d(SIGWINCH := Default)"

text \<open>
  What \<open>forkpty\<close> and \<open>execvp\<close> hand to the session's program: the child has its parent's
  dispositions, and \<open>execve\<close>, as documented, resets those with a handler and keeps the others.
\<close>

definition exec_signals :: "(nat \<Rightarrow> disposition) \<Rightarrow> nat \<Rightarrow> disposition" where
  "exec_signals d n = (case d n of Caught h \<Rightarrow> Default | x \<Rightarrow> x)"

definition program_signals :: "(nat \<Rightarrow> disposition) \<Rightarrow> nat \<Rightarrow> disposition" where
  "program_signals d = exec_signals (server_signals d)"

end
