(* ===== verification/Server.thy ===== *)
theory Server
  imports Outbound Handlers
begin

text \<open>
  The server process: \<open>server_loop\<close> and \<open>read_client_packets\<close> of \<open>main.rs\<close>, one definition per
  phase of the loop body and one for the whole pass (\<open>server_tick\<close>). The state is the loop's
  locals (\<open>clients\<close>, \<open>history\<close>, \<open>child_exit\<close>, \<open>read_pty\<close>), the pty master as scripts of
  answers and the bytes it accepted, and the effects on the world in the order they happen.
  What the outside decides in one pass (the signal flag, the answers of \<open>accept\<close> and \<open>waitpid\<close>,
  the readings of the clock) is the record \<open>tick_env\<close>.
\<close>

subsection \<open>State and environment\<close>

datatype effect =
    Kill int nat
  | SetWinsize u16 u16
  | SetPermissions string nat
  | ServerLog string string

record server =
  clients :: "client list"
  history_of :: history
  child_exit :: "i32 option"
  read_pty :: bool
  m_rx :: "read_answer list"
  m_tx :: "write_answer list"
  m_in :: bytes
  effects :: "effect list"

text \<open>\<open>accept\<close> hands out a stream and says whether \<open>set_nonblocking\<close> on it fails, or fails itself.\<close>

datatype accept_answer = Accepted sock "io_error option" | AcceptErr io_error

record tick_env =
  shutdown_requested :: bool
  accept_answers :: "accept_answer list"
  wait_answer :: "int \<times> i32"
  read_at :: "nat \<Rightarrow> nat"
  exit_at :: "nat \<Rightarrow> nat"
  now_at :: nat

text \<open>The status macros of \<open>sys/wait.h\<close>, which the source takes from the libc crate.\<close>

record wait_macros =
  WIFEXITED :: "i32 \<Rightarrow> bool"
  WEXITSTATUS :: "i32 \<Rightarrow> i32"
  WIFSIGNALED :: "i32 \<Rightarrow> bool"
  WTERMSIG :: "i32 \<Rightarrow> i32"

record server_cfg =
  server_pid :: u64
  child_pid :: int
  path :: string
  macros :: wait_macros

text \<open>Instants count nanoseconds.\<close>

definition EXIT_DRAIN_DEADLINE :: nat where
  "EXIT_DRAIN_DEADLINE = 5 * 1000000000"

definition exit_status :: "wait_macros \<Rightarrow> i32 \<Rightarrow> i32" where
  "exit_status w status =
     (if WIFEXITED w status then WEXITSTATUS w status
      else if WIFSIGNALED w status then 128 + WTERMSIG w status
      else status)"

definition emit :: "effect list \<Rightarrow> server \<Rightarrow> server" where
  "emit es s = s\<lparr>effects := effects s @ es\<rparr>"

subsection \<open>Signal, accept, pty and waitpid phases\<close>

definition poll_shutdown :: "server_cfg \<Rightarrow> bool \<Rightarrow> server \<Rightarrow> server" where
  "poll_shutdown cfg req s =
     (if req \<and> child_exit s = None
      then (emit [ServerLog ''shutdown'' ''signal-requested SIGTERM/SIGINT'',
                  Kill (- child_pid cfg) SIGTERM,
                  SetPermissions (path cfg) 392] s)
           \<lparr>child_exit := Some (128 + word_of_nat SIGTERM)\<rparr>
      else s)"

definition new_client :: "sock \<Rightarrow> client" where
  "new_client sk =
     \<lparr>stream = sk, buf = [], attached = False, flags = 0, disconnected = False,
      send_queue = [], close_after_drain = None\<rparr>"

fun accept_loop :: "server_cfg \<Rightarrow> accept_answer list \<Rightarrow> server \<Rightarrow> server option" where
  "accept_loop cfg [] s = Some s"
| "accept_loop cfg (AcceptErr e # as) s = Some s"
| "accept_loop cfg (Accepted sk nb # as) s =
     (case send_packet_blocking \<lparr>mtyp = MSG_PID, payload = u64_to_ne_bytes (server_pid cfg)\<rparr> sk of
        None \<Rightarrow> None
      | Some (_, sk') \<Rightarrow>
          (case nb of
             Some e \<Rightarrow> accept_loop cfg as
               (emit [ServerLog ''accept-error'' (''set_nonblocking failed: '' @ err_msg e)] s)
           | None \<Rightarrow> accept_loop cfg as
               (s\<lparr>clients := clients s @ [new_client sk'], read_pty := True\<rparr>)))"

function pty_loop :: "server \<Rightarrow> server" where
  "pty_loop s =
     (case next_read MAX_PAYLOAD (m_rx s) of
        (Inr bs, rs) \<Rightarrow>
          (if bs = [] then s\<lparr>m_rx := rs, read_pty := False\<rparr>
           else pty_loop (s\<lparr>m_rx := rs, history_of := history_append (history_of s) bs,
                            clients := broadcast_content (clients s) bs\<rparr>))
      | (Inl e, rs) \<Rightarrow>
          (if err_kind e = WouldBlock then s\<lparr>m_rx := rs\<rparr>
           else if err_kind e = Interrupted then pty_loop (s\<lparr>m_rx := rs\<rparr>)
           else s\<lparr>m_rx := rs, read_pty := False\<rparr>))"
  by pat_completeness auto
termination
  by (relation "measure (\<lambda>s. rx_size (m_rx s))") (auto dest: next_read_data_shrinks next_read_error_shrinks)

declare pty_loop.simps [simp del]

definition pty_phase :: "server \<Rightarrow> server" where
  "pty_phase s = (if read_pty s then pty_loop s else s)"

definition wait_phase :: "server_cfg \<Rightarrow> int \<times> i32 \<Rightarrow> server \<Rightarrow> server" where
  "wait_phase cfg w s =
     (if child_exit s = None \<and> fst w = child_pid cfg
      then (emit [SetPermissions (path cfg) 392] s)
           \<lparr>child_exit := Some (exit_status (macros cfg) (snd w))\<rparr>
      else s)"

subsection \<open>Reading one client\<close>

datatype read_end = SawEof | Drained | Failed

function read_loop :: "read_answer list \<Rightarrow> bytes \<Rightarrow> read_end \<times> bytes \<times> read_answer list" where
  "read_loop rs b =
     (case next_read 8192 rs of
        (Inr bs, rs') \<Rightarrow> (if bs = [] then (SawEof, b, rs') else read_loop rs' (b @ bs))
      | (Inl e, rs') \<Rightarrow>
          (if err_kind e = WouldBlock then (Drained, b, rs')
           else if err_kind e = Interrupted then read_loop rs' b
           else (Failed, b, rs')))"
  by pat_completeness auto
termination
  by (relation "measure (\<lambda>(rs, b). rx_size rs)") (auto dest: next_read_data_shrinks next_read_error_shrinks)

declare read_loop.simps [simp del]

text \<open>Writing to the pty master, whose result the server ignores.\<close>

definition write_master :: "bytes \<Rightarrow> server \<Rightarrow> server" where
  "write_master bs s =
     (case fd_write_all Nonblocking bs (m_tx s) of
        None \<Rightarrow> s
      | Some (r, acc, ws) \<Rightarrow> s\<lparr>m_tx := ws, m_in := m_in s @ acc\<rparr>)"

definition handle_packet :: "nat \<Rightarrow> int \<Rightarrow> packet \<Rightarrow> client \<times> server \<Rightarrow> client \<times> server" where
  "handle_packet inst pid pkt cs =
     (let c = fst cs; s = snd cs; ty = mtyp pkt; pl = payload pkt
      in if (ty = MSG_CONTENT \<or> ty = MSG_SEND_KEYS) \<and> flags c AND CLIENT_READONLY = 0
         then (c, write_master pl s)
         else if ty = MSG_CONTENT \<or> ty = MSG_SEND_KEYS then (c, s)
         else if ty = MSG_ATTACH
         then (send_history (c\<lparr>attached := True, flags := (case read_u32 pl of None \<Rightarrow> 0 | Some f \<Rightarrow> f)\<rparr>)
                 (history_of s) False, s)
         else if ty = MSG_DUMP
         then (let c' = send_history c (history_of s) True
               in if close_after_drain c' = None then c'\<lparr>close_after_drain := Some inst\<rparr> else c', s)
         else if ty = MSG_RESIZE \<and> length pl \<ge> 4
         then (c, emit [SetWinsize (u16_from_ne_bytes (take 2 pl)) (u16_from_ne_bytes (take 2 (drop 2 pl))),
                        Kill (- pid) SIGWINCH] s)
         else if ty = MSG_RESIZE then (c, s)
         else if ty = MSG_DETACH \<or> ty = MSG_EXIT then (c\<lparr>disconnected := True\<rparr>, s)
         else (c, s))"

lemma handle_packet_buf [simp]: "buf (fst (handle_packet inst pid pkt cs)) = buf (fst cs)"
  by (simp add: handle_packet_def Let_def)

text \<open>\<open>while let Some(pkt) = pop_packet(..)\<close>, with the match on the packet's type as its body.\<close>

function packet_loop :: "nat \<Rightarrow> int \<Rightarrow> client \<times> server \<Rightarrow> client \<times> server" where
  "packet_loop inst pid cs =
     (case pop_packet (buf (fst cs)) of
        (None, b) \<Rightarrow> ((fst cs)\<lparr>buf := b\<rparr>, snd cs)
      | (Some pkt, b) \<Rightarrow> packet_loop inst pid (handle_packet inst pid pkt ((fst cs)\<lparr>buf := b\<rparr>, snd cs)))"
  by pat_completeness auto
termination
  by (relation "measure (\<lambda>(inst, pid, cs). length (buf (fst cs)))")
    (auto intro: pop_packet_shrinks dest: sym)

declare packet_loop.simps [simp del]

definition read_client :: "nat \<Rightarrow> int \<Rightarrow> client \<times> server \<Rightarrow> client \<times> server" where
  "read_client inst pid cs =
     (let c = fst cs; s = snd cs
      in case read_loop (rx (stream c)) (buf c) of
        (e, b, rs) \<Rightarrow>
          (let c1 = c\<lparr>stream := (stream c)\<lparr>rx := rs\<rparr>, buf := b\<rparr>
           in if e = Failed then (c1\<lparr>disconnected := True\<rparr>, s)
              else let r = packet_loop inst pid (c1, s)
                   in if e = SawEof then ((fst r)\<lparr>disconnected := True\<rparr>, snd r) else r))"

definition read_client_packets :: "nat \<Rightarrow> int \<Rightarrow> nat \<Rightarrow> server \<Rightarrow> server" where
  "read_client_packets inst pid idx s =
     (let r = read_client inst pid (clients s ! idx, s)
      in (snd r)\<lparr>clients := (clients s)[idx := fst r]\<rparr>)"

definition read_phase :: "server_cfg \<Rightarrow> (nat \<Rightarrow> nat) \<Rightarrow> server \<Rightarrow> server" where
  "read_phase cfg at s =
     fold (\<lambda>i. read_client_packets (at i) (child_pid cfg) i) [0..<length (clients s)] s"

subsection \<open>Exit, flush and deadline phases, and the whole pass\<close>

definition exit_packet :: "i32 \<Rightarrow> packet" where
  "exit_packet status = \<lparr>mtyp = MSG_EXIT, payload = u32_to_ne_bytes status\<rparr>"

definition exit_one :: "nat \<Rightarrow> i32 \<Rightarrow> client \<Rightarrow> client" where
  "exit_one inst status c =
     (if disconnected c \<or> close_after_drain c \<noteq> None then c
      else (snd (send_packet_nonblocking c (exit_packet status)))\<lparr>close_after_drain := Some inst\<rparr>)"

definition exit_phase :: "(nat \<Rightarrow> nat) \<Rightarrow> server \<Rightarrow> server" where
  "exit_phase at s =
     (case child_exit s of
        None \<Rightarrow> s
      | Some status \<Rightarrow>
          s\<lparr>clients := map (\<lambda>(i, c). exit_one (at i) status c) (enumerate 0 (clients s))\<rparr>)"

definition flush_one :: "client \<Rightarrow> client" where
  "flush_one c =
     (if disconnected c then c
      else case try_flush_client c of
        (Inl e, c') \<Rightarrow> c'\<lparr>disconnected := True\<rparr>
      | (Inr u, c') \<Rightarrow> c')"

definition deadline_one :: "nat \<Rightarrow> client \<Rightarrow> client" where
  "deadline_one now c =
     (if disconnected c then c
      else case close_after_drain c of
        None \<Rightarrow> c
      | Some t \<Rightarrow>
          if send_queue c = [] \<or> now - t \<ge> EXIT_DRAIN_DEADLINE then c\<lparr>disconnected := True\<rparr> else c)"

definition close_phase :: "nat \<Rightarrow> server \<Rightarrow> server" where
  "close_phase now s =
     s\<lparr>clients := filter (\<lambda>c. \<not> disconnected c)
         (map (deadline_one now) (map flush_one (clients s)))\<rparr>"

datatype tick_result = Continue server | Returned server

definition finish :: "server \<Rightarrow> tick_result" where
  "finish s =
     (case child_exit s of
        Some code \<Rightarrow>
          if clients s = []
          then Returned (emit [ServerLog ''shutdown''
                 (''clean child_exit='' @ show_int (sint code) @ '' clients=0'')] s)
          else Continue s
      | None \<Rightarrow> Continue s)"

definition server_tick :: "server_cfg \<Rightarrow> tick_env \<Rightarrow> server \<Rightarrow> tick_result option" where
  "server_tick cfg env s =
     (case accept_loop cfg (accept_answers env) (poll_shutdown cfg (shutdown_requested env) s) of
        None \<Rightarrow> None
      | Some s1 \<Rightarrow>
          Some (finish
            (close_phase (now_at env)
              (exit_phase (exit_at env)
                (read_phase cfg (read_at env)
                  (wait_phase cfg (wait_answer env)
                    (pty_phase s1)))))))"

text \<open>The loop over the passes observed so far: still running, returned, or held up in a pass.\<close>

datatype loop_result = Running server | Done server | Stuck

fun server_loop :: "server_cfg \<Rightarrow> tick_env list \<Rightarrow> server \<Rightarrow> loop_result" where
  "server_loop cfg [] s = Running s"
| "server_loop cfg (env # envs) s =
     (case server_tick cfg env s of
        None \<Rightarrow> Stuck
      | Some (Returned s') \<Rightarrow> Done s'
      | Some (Continue s') \<Rightarrow> server_loop cfg envs s')"

definition server_init :: "bool \<Rightarrow> read_answer list \<Rightarrow> write_answer list \<Rightarrow> server" where
  "server_init rp prx ptx =
     \<lparr>clients = [], history_of = history_new, child_exit = None, read_pty = rp,
      m_rx = prx, m_tx = ptx, m_in = [], effects = []\<rparr>"

subsection \<open>What the phases leave alone\<close>

lemma emit_fields [simp]:
  "clients (emit es s) = clients s" "history_of (emit es s) = history_of s"
  "child_exit (emit es s) = child_exit s" "read_pty (emit es s) = read_pty s"
  "m_rx (emit es s) = m_rx s" "m_tx (emit es s) = m_tx s" "m_in (emit es s) = m_in s"
  "effects (emit es s) = effects s @ es"
  by (simp_all add: emit_def)

lemma write_master_fields [simp]:
  "clients (write_master bs s) = clients s" "history_of (write_master bs s) = history_of s"
  "child_exit (write_master bs s) = child_exit s" "read_pty (write_master bs s) = read_pty s"
  "m_rx (write_master bs s) = m_rx s" "effects (write_master bs s) = effects s"
  by (simp_all add: write_master_def split: option.splits)

lemma handle_packet_fields [keeps, simp]:
  "clients (snd (handle_packet inst pid pkt cs)) = clients (snd cs)"
  "history_of (snd (handle_packet inst pid pkt cs)) = history_of (snd cs)"
  "child_exit (snd (handle_packet inst pid pkt cs)) = child_exit (snd cs)"
  "m_rx (snd (handle_packet inst pid pkt cs)) = m_rx (snd cs)"
  by (simp_all add: handle_packet_def Let_def)

end
