(* ===== verification/Evolution.thy ===== *)
theory Evolution
  imports Server
begin

text \<open>
  How a client may change while the server works on it: \<open>evolves c c'\<close> collects what every
  operation guarantees of a client, whichever it is, so that each phase and each pass inherits it.
  The locale \<open>client_relation\<close> states what a relation between clients needs so that the packet
  loop, and with it \<open>read_client\<close>, keeps it; \<open>evolves\<close> is its interpretation \<open>ev\<close>.
\<close>

definition evolves :: "client \<Rightarrow> client \<Rightarrow> bool" where
  "evolves c c' \<longleftrightarrow>
     grows c c' \<and>
     prefix (wire (stream c)) (wire (stream c')) \<and>
     (disconnected c \<longrightarrow> disconnected c') \<and>
     (attached c \<longrightarrow> attached c') \<and>
     (\<forall>t. close_after_drain c = Some t \<longrightarrow> close_after_drain c' = Some t) \<and>
     (length (send_queue c) \<le> SEND_QUEUE_CAP \<longrightarrow> length (send_queue c') \<le> SEND_QUEUE_CAP)"

lemma evolves_refl [simp]: "evolves c c"
  by (simp add: evolves_def grows_same)

lemma evolves_trans: "evolves c c' \<Longrightarrow> evolves c' c'' \<Longrightarrow> evolves c c''"
  unfolding evolves_def by (blast intro: grows_trans prefix_order.trans)

lemma evolves_bookkeeping:
  "outbound c' = outbound c \<Longrightarrow> wire (stream c') = wire (stream c) \<Longrightarrow>
   (disconnected c \<Longrightarrow> disconnected c') \<Longrightarrow> (attached c \<Longrightarrow> attached c') \<Longrightarrow>
   (\<And>t. close_after_drain c = Some t \<Longrightarrow> close_after_drain c' = Some t) \<Longrightarrow> evolves c c'"
  unfolding evolves_def by (auto simp: grows_same outbound_def)

lemma evolves_send: "packet_ok p \<Longrightarrow> evolves c (snd (send_packet_nonblocking c p))"
  by (simp add: evolves_def grows_send send_nonblocking_wire send_nonblocking_queue)

lemma evolves_disconnect: "evolves c c' \<Longrightarrow> evolves c (c'\<lparr>disconnected := True\<rparr>)"
  by (rule evolves_trans) (auto intro: evolves_bookkeeping)

lemma evolves_try_flush: "evolves c (snd (try_flush_client c))"
  using try_flush_queue_le [of c] by (auto simp: evolves_def grows_same try_flush_wire)

lemma replay_chunks_wire: "prefix (wire (stream c)) (wire (stream (snd (replay_chunks chs c))))"
proof (induction chs arbitrary: c)
  case (Cons ch chs)
  have w: "prefix (wire (stream c)) (wire (stream (snd (send_packet_nonblocking c (content ch)))))"
    by (rule send_nonblocking_wire)
  show ?case
  proof (cases "send_packet_nonblocking c (content ch)")
    case (Pair r c')
    with w Cons.IH [of c'] show ?thesis
      by (cases r) (auto intro: prefix_order.trans)
  qed
qed simp

lemma evolves_send_history: "evolves c (send_history c h e)"
proof -
  let ?r = "replay_chunks (chunks MAX_PAYLOAD (snapshot h)) c"
  have "prefix (wire (stream c)) (wire (stream (send_history c h e)))"
    using replay_chunks_wire [of c] send_nonblocking_wire [of "snd ?r" dump_end]
    by (auto simp: send_history_alt Let_def intro: prefix_order.trans)
  then show ?thesis
    by (simp add: evolves_def grows_send_history send_history_queue)
qed

lemma evolves_broadcast: "length bs \<le> MAX_PAYLOAD \<Longrightarrow> evolves c (broadcast_one bs c)"
  using send_nonblocking_wire [of c "content bs"]
  by (simp add: evolves_def grows_broadcast broadcast_one_queue) (simp add: broadcast_one_alt Let_def)

lemma exit_packet_ok [simp]: "packet_ok (exit_packet st)"
  by (simp add: packet_ok_def exit_packet_def MAX_PAYLOAD_def)

lemma evolves_exit_one: "evolves c (exit_one t st c)"
proof (cases "disconnected c \<or> close_after_drain c \<noteq> None")
  case False
  have "evolves c (snd (send_packet_nonblocking c (exit_packet st)))" by (simp add: evolves_send)
  moreover have "evolves (snd (send_packet_nonblocking c (exit_packet st))) (exit_one t st c)"
    using False by (auto simp: exit_one_def outbound_def intro!: evolves_bookkeeping)
  ultimately show ?thesis by (rule evolves_trans)
qed (auto simp: exit_one_def)

lemma flush_one_alt:
  "flush_one c =
     (if disconnected c then c
      else let r = try_flush_client c in if isl (fst r) then (snd r)\<lparr>disconnected := True\<rparr> else snd r)"
  by (simp add: flush_one_def Let_def split: prod.splits sum.splits)

lemma evolves_flush_one: "evolves c (flush_one c)"
  by (simp add: flush_one_alt Let_def evolves_try_flush evolves_disconnect)

lemma evolves_deadline_one: "evolves c (deadline_one now c)"
  by (auto simp: deadline_one_def evolves_disconnect split: option.splits)

subsection \<open>Relations that the packet loop keeps\<close>

locale client_relation =
  fixes R :: "client \<Rightarrow> client \<Rightarrow> bool"
  assumes R_trans: "R c c' \<Longrightarrow> R c' c'' \<Longrightarrow> R c c''"
    and R_buf: "R c (c\<lparr>buf := b\<rparr>)"
    and R_rx: "R c (c\<lparr>stream := (stream c)\<lparr>rx := rs\<rparr>, buf := b\<rparr>)"
    and R_disconnect: "R c (c\<lparr>disconnected := True\<rparr>)"
    and R_packet: "R c (fst (handle_packet inst pid pkt (c, s)))"
begin

lemma R_packet_loop: "R (fst cs) (fst (packet_loop inst pid cs))"
proof (induction inst pid cs rule: packet_loop.induct)
  case (1 inst pid cs)
  show ?case
  proof (cases "pop_packet (buf (fst cs))")
    case (Pair q b)
    show ?thesis
    proof (cases q)
      case None
      with Pair show ?thesis by (simp add: packet_loop.simps [of inst pid cs] R_buf)
    next
      case (Some p)
      let ?c = "(fst cs)\<lparr>buf := b\<rparr>"
      have "R (fst cs) (fst (handle_packet inst pid p (?c, snd cs)))"
        using R_buf R_packet by (rule R_trans)
      moreover have "R (fst (handle_packet inst pid p (?c, snd cs))) (fst (packet_loop inst pid cs))"
        using "1.IH" [OF Pair [symmetric] Some] Pair Some
        by (simp add: packet_loop.simps [of inst pid cs])
      ultimately show ?thesis by (rule R_trans)
    qed
  qed
qed

lemma R_read_client: "R c (fst (read_client inst pid (c, s)))"
proof (cases "read_loop (rx (stream c)) (buf c)")
  case (fields e b rs)
  let ?c = "c\<lparr>stream := (stream c)\<lparr>rx := rs\<rparr>, buf := b\<rparr>"
  have 1: "R c ?c" by (rule R_rx)
  have 2: "R ?c (fst (packet_loop inst pid (?c, s)))"
    using R_packet_loop [of "(?c, s)"] by simp
  show ?thesis
    using R_trans [OF 1 R_disconnect] R_trans [OF 1 2] R_trans [OF R_trans [OF 1 2] R_disconnect]
    by (simp add: read_client_def Let_def fields)
qed

end

lemma evolves_handle_packet: "evolves c (fst (handle_packet inst pid pkt (c, s)))"
proof -
  have a: "evolves c (send_history (c\<lparr>attached := True, flags := f\<rparr>) h e)" for f h e
    by (rule evolves_trans [OF _ evolves_send_history]) (auto simp: outbound_def intro: evolves_bookkeeping)
  have d: "evolves c ((send_history c h True)\<lparr>close_after_drain := Some inst\<rparr>)"
    if "close_after_drain c = None" for h
    by (rule evolves_trans [OF evolves_send_history [of c h True]])
      (use that in \<open>auto simp: outbound_def intro: evolves_bookkeeping\<close>)
  show ?thesis
    by (simp add: handle_packet_def Let_def a d evolves_send_history evolves_disconnect)
qed

interpretation ev: client_relation evolves
proof
  show "evolves c c' \<Longrightarrow> evolves c' c'' \<Longrightarrow> evolves c c''" for c c' c''
    by (rule evolves_trans)
  show "evolves c (c\<lparr>disconnected := True\<rparr>)" for c
    by (simp add: evolves_disconnect)
qed (auto simp: evolves_handle_packet outbound_def intro: evolves_bookkeeping)

end
