(* ===== verification/Passes.thy ===== *)
theory Passes
  imports Evolution
begin

text \<open>
  The phases of one pass of the server and the pass itself, by what they do to the clients
  (\<open>evolves\<close>, one by one and in place), to the history, to the terminal and to the exit state.
\<close>

lemmas list_all2_evolves_refl = list_all2_refl [of evolves, OF evolves_refl]

lemma list_all2_evolves_trans:
  "list_all2 evolves xs ys \<Longrightarrow> list_all2 evolves ys zs \<Longrightarrow> list_all2 evolves xs zs"
  by (rule list_all2_trans [where ?P1.0 = evolves and ?P2.0 = evolves]) (auto intro: evolves_trans)

subsection \<open>Terminal output\<close>

text \<open>The pieces the pty loop reads before it stops.\<close>

function pty_pieces :: "read_answer list \<Rightarrow> bytes list" where
  "pty_pieces rs =
     (case next_read MAX_PAYLOAD rs of
        (Inr bs, rs') \<Rightarrow> (if bs = [] then [] else bs # pty_pieces rs')
      | (Inl e, rs') \<Rightarrow> (if err_kind e = Interrupted then pty_pieces rs' else []))"
  by pat_completeness auto
termination
  by (relation "measure rx_size") (auto dest: next_read_data_shrinks next_read_error_shrinks)

declare pty_pieces.simps [simp del]

definition broadcast_if :: "bytes \<Rightarrow> client \<Rightarrow> client" where
  "broadcast_if bs c = (if attached c then broadcast_one bs c else c)"

lemma pty_loop_effect:
  "history_of (pty_loop s) = fold (\<lambda>d h. history_append h d) (pty_pieces (m_rx s)) (history_of s) \<and>
   clients (pty_loop s) = map (fold broadcast_if (pty_pieces (m_rx s))) (clients s) \<and>
   child_exit (pty_loop s) = child_exit s \<and> m_tx (pty_loop s) = m_tx s \<and>
   m_in (pty_loop s) = m_in s \<and> effects (pty_loop s) = effects s"
proof (induction s rule: pty_loop.induct)
  case (1 s)
  show ?case
  proof (cases "next_read MAX_PAYLOAD (m_rx s)")
    case (Pair r rs)
    show ?thesis
    proof (cases r)
      case (Inl e)
      with Pair "1.IH"(1) [OF Pair [symmetric] Inl] show ?thesis
        by (auto simp: pty_loop.simps [of s] pty_pieces.simps [of "m_rx s"])
    next
      case (Inr bs)
      with Pair "1.IH"(2) [OF Pair [symmetric] Inr] show ?thesis
        by (auto simp: pty_loop.simps [of s] pty_pieces.simps [of "m_rx s"] broadcast_content_def
            broadcast_if_def)
    qed
  qed
qed

lemmas pty_loop_fields = pty_loop_effect [THEN conjunct1] pty_loop_effect [THEN conjunct2, THEN conjunct1]
  pty_loop_effect [THEN conjunct2, THEN conjunct2, THEN conjunct1]
  pty_loop_effect [THEN conjunct2, THEN conjunct2, THEN conjunct2, THEN conjunct1]
  pty_loop_effect [THEN conjunct2, THEN conjunct2, THEN conjunct2, THEN conjunct2, THEN conjunct1]
  pty_loop_effect [THEN conjunct2, THEN conjunct2, THEN conjunct2, THEN conjunct2, THEN conjunct2]

lemma next_read_len: "next_read n rs = (Inr bs, rs') \<Longrightarrow> length bs \<le> n"
  by (cases "(n, rs)" rule: next_read.cases) auto

lemma pty_pieces_bound: "bs \<in> set (pty_pieces rs) \<Longrightarrow> bs \<noteq> [] \<and> length bs \<le> MAX_PAYLOAD"
proof (induction rs rule: pty_pieces.induct)
  case (1 rs)
  then show ?case
    by (cases "next_read MAX_PAYLOAD rs"; cases "fst (next_read MAX_PAYLOAD rs)")
      (auto simp: pty_pieces.simps [of rs] dest: next_read_len split: if_splits)
qed

lemma concat_pty_pieces: "concat (pty_pieces rs) = readable rs"
proof (induction rs rule: pty_pieces.induct)
  case (1 rs)
  show ?case
  proof (cases rs)
    case Nil
    then show ?thesis by (simp add: pty_pieces.simps eagain_def)
  next
    case (Cons a rs')
    then have call: "sys_read MAX_PAYLOAD rs = Some (next_read MAX_PAYLOAD rs)"
      by (simp add: sys_read_def)
    show ?thesis
    proof (cases "next_read MAX_PAYLOAD rs")
      case (Pair r rs1)
      note c = call [unfolded Pair]
      show ?thesis
      proof (cases r)
        case (Inl e)
        with "1.IH"(1) [OF Pair [symmetric] Inl] c sys_read_error [of MAX_PAYLOAD rs e rs1] Pair
        show ?thesis by (simp add: pty_pieces.simps [of rs])
      next
        case (Inr bs)
        with "1.IH"(2) [OF Pair [symmetric] Inr] c Pair sys_read_data [of MAX_PAYLOAD rs bs rs1]
          sys_read_eof [of MAX_PAYLOAD rs rs1]
        show ?thesis by (auto simp: pty_pieces.simps [of rs])
      qed
    qed
  qed
qed

lemma fold_broadcast_evolves:
  "list_all (\<lambda>bs. length bs \<le> MAX_PAYLOAD) ds \<Longrightarrow> evolves c (fold broadcast_if ds c)"
proof (induction ds arbitrary: c)
  case (Cons d ds)
  then have "evolves c (broadcast_if d c)" by (simp add: broadcast_if_def evolves_broadcast)
  with Cons show ?case by (auto intro: evolves_trans)
qed simp

lemma fold_broadcast_attached [simp]: "attached (fold broadcast_if ds c) = attached c"
  by (induction ds arbitrary: c) (auto simp: broadcast_if_def)

lemma fold_broadcast_keeps:
  "buf (fold broadcast_if ds c) = buf c \<and> rx (stream (fold broadcast_if ds c)) = rx (stream c)"
  by (induction ds arbitrary: c) (simp_all add: broadcast_if_def)

lemma fold_broadcast_disconnected:
  "disconnected c \<Longrightarrow> disconnected (fold broadcast_if ds c)"
  by (induction ds arbitrary: c) (auto simp: broadcast_if_def)

lemma fold_broadcast_outbound:
  "attached c \<Longrightarrow> \<not> disconnected (fold broadcast_if ds c) \<Longrightarrow>
     outbound (fold broadcast_if ds c) = outbound c @ encode (map content ds)"
proof (induction ds arbitrary: c)
  case (Cons d ds)
  let ?c = "broadcast_one d c"
  have f: "fold broadcast_if (d # ds) c = fold broadcast_if ds ?c"
    using Cons.prems(1) by (simp add: broadcast_if_def [of d])
  with Cons.prems(2) have "\<not> disconnected ?c" using fold_broadcast_disconnected by metis
  with Cons.prems Cons.IH [of ?c] f show ?case by (simp add: broadcast_one_outbound)
qed simp

lemma pty_phase_clients: "list_all2 evolves (clients s) (clients (pty_phase s))"
proof -
  have "list_all (\<lambda>bs. length bs \<le> MAX_PAYLOAD) (pty_pieces (m_rx s))"
    by (auto simp: list_all_iff dest: pty_pieces_bound)
  then show ?thesis
    by (auto simp: pty_phase_def pty_loop_fields list_all2_conv_all_nth fold_broadcast_evolves)
qed

lemma pty_phase_fields [simp]:
  "child_exit (pty_phase s) = child_exit s" "m_tx (pty_phase s) = m_tx s"
  "m_in (pty_phase s) = m_in s" "effects (pty_phase s) = effects s"
  by (simp_all add: pty_phase_def pty_loop_fields)

lemma pty_phase_history:
  "length (snapshot (history_of s)) \<le> HISTORY_CAP \<Longrightarrow>
     snapshot (history_of (pty_phase s)) =
       (if read_pty s then last_n HISTORY_CAP (snapshot (history_of s) @ readable (m_rx s))
        else snapshot (history_of s))"
  using hist.contents_fold [of "history_of s" "pty_pieces (m_rx s)"]
  by (simp add: pty_phase_def pty_loop_fields concat_pty_pieces)

subsection \<open>Reading the clients\<close>

lemma packet_loop_fields [keeps, simp]:
  "clients (snd (packet_loop inst pid cs)) = clients (snd cs)"
  "history_of (snd (packet_loop inst pid cs)) = history_of (snd cs)"
  "child_exit (snd (packet_loop inst pid cs)) = child_exit (snd cs)"
  "m_rx (snd (packet_loop inst pid cs)) = m_rx (snd cs)"
proof (induction inst pid cs rule: packet_loop.induct)
  case (1 inst pid cs)
  case 1
  show ?case using "1.IH"(1) by (subst packet_loop.simps) (auto split: prod.splits option.splits)
  case 2
  show ?case using "1.IH"(2) by (subst packet_loop.simps) (auto split: prod.splits option.splits)
  case 3
  show ?case using "1.IH"(3) by (subst packet_loop.simps) (auto split: prod.splits option.splits)
  case 4
  show ?case using "1.IH"(4) by (subst packet_loop.simps) (auto split: prod.splits option.splits)
qed

lemma read_client_fields [keeps, simp]:
  "clients (snd (read_client inst pid cs)) = clients (snd cs)"
  "history_of (snd (read_client inst pid cs)) = history_of (snd cs)"
  "child_exit (snd (read_client inst pid cs)) = child_exit (snd cs)"
  "m_rx (snd (read_client inst pid cs)) = m_rx (snd cs)"
  by (simp_all add: read_client_def Let_def split: prod.splits)

lemma read_client_packets_fields [keeps, simp]:
  "history_of (read_client_packets inst pid i s) = history_of s"
  "child_exit (read_client_packets inst pid i s) = child_exit s"
  "m_rx (read_client_packets inst pid i s) = m_rx s"
  "clients (read_client_packets inst pid i s) =
     (clients s)[i := fst (read_client inst pid (clients s ! i, s))]"
  by (simp_all add: read_client_packets_def Let_def)

lemma read_client_packets_evolves:
  "list_all2 evolves (clients s) (clients (read_client_packets inst pid i s))"
proof (cases "i < length (clients s)")
  case True
  then show ?thesis by (auto simp: list_all2_conv_all_nth nth_list_update ev.R_read_client)
next
  case False
  then have "clients (read_client_packets inst pid i s) = clients s"
    by (simp add: list_update_beyond)
  then show ?thesis by (simp only: list_all2_evolves_refl)
qed

lemma fold_read_fields:
  "history_of (fold (\<lambda>i. read_client_packets (at i) pid i) is s) = history_of s \<and>
   child_exit (fold (\<lambda>i. read_client_packets (at i) pid i) is s) = child_exit s \<and>
   m_rx (fold (\<lambda>i. read_client_packets (at i) pid i) is s) = m_rx s \<and>
   list_all2 evolves (clients s) (clients (fold (\<lambda>i. read_client_packets (at i) pid i) is s))"
proof (induction "is" arbitrary: s)
  case (Cons i "is")
  from Cons.IH [of "read_client_packets (at i) pid i s"] read_client_packets_evolves [of s "at i" pid i]
  show ?case by (auto intro: list_all2_evolves_trans)
qed (simp add: list_all2_evolves_refl)

lemma read_phase_fields [keeps, simp]:
  "history_of (read_phase cfg at s) = history_of s"
  "child_exit (read_phase cfg at s) = child_exit s"
  "m_rx (read_phase cfg at s) = m_rx s"
  using fold_read_fields by (simp_all add: read_phase_def)

lemma read_phase_clients: "list_all2 evolves (clients s) (clients (read_phase cfg at s))"
  using fold_read_fields by (simp add: read_phase_def)

subsection \<open>Accepting, waiting, closing\<close>

lemma poll_shutdown_fields [keeps, simp]:
  "clients (poll_shutdown cfg r s) = clients s" "history_of (poll_shutdown cfg r s) = history_of s"
  "read_pty (poll_shutdown cfg r s) = read_pty s" "m_rx (poll_shutdown cfg r s) = m_rx s"
  "m_in (poll_shutdown cfg r s) = m_in s" "m_tx (poll_shutdown cfg r s) = m_tx s"
  by (simp_all add: poll_shutdown_def)

text \<open>What a connection taken from \<open>accept\<close> has been sent: the greeting, or a start of it.\<close>

definition pid_packet :: "server_cfg \<Rightarrow> packet" where
  "pid_packet cfg = \<lparr>mtyp = MSG_PID, payload = u64_to_ne_bytes (server_pid cfg)\<rparr>"

definition greets :: "server_cfg \<Rightarrow> accept_answer \<Rightarrow> bool" where
  "greets cfg a =
     (case a of
        AcceptErr e \<Rightarrow> True
      | Accepted sk nb \<Rightarrow>
          wire sk = [] \<and>
          (case send_packet_blocking (pid_packet cfg) sk of Some (Inr u, sk') \<Rightarrow> True | _ \<Rightarrow> False))"

definition fresh :: "client \<Rightarrow> bool" where
  "fresh c \<longleftrightarrow> \<not> disconnected c \<and> \<not> attached c \<and> close_after_drain c = None \<and> send_queue c = []"

lemma accept_loop_fields:
  "accept_loop cfg as s = Some s' \<Longrightarrow>
     history_of s' = history_of s \<and> child_exit s' = child_exit s \<and> m_rx s' = m_rx s \<and>
     m_tx s' = m_tx s \<and> m_in s' = m_in s \<and>
     (\<exists>new. clients s' = clients s @ new \<and> list_all fresh new \<and>
        (list_all (greets cfg) as \<longrightarrow> list_all (\<lambda>c. outbound c = encode [pid_packet cfg]) new))"
proof (induction cfg as s rule: accept_loop.induct)
  case (3 cfg sk nb as s)
  then obtain r sk' where sent: "send_packet_blocking (pid_packet cfg) sk = Some (r, sk')"
    by (auto simp: pid_packet_def split: option.splits)
  let ?c = "new_client sk'"
  have c: "fresh ?c" by (simp add: new_client_def fresh_def)
  have o: "outbound ?c = encode [pid_packet cfg]" if "greets cfg (Accepted sk nb)"
    using that sent blocking.send_ok [of "pid_packet cfg" sk sk']
    by (cases r) (auto simp: greets_def outbound_def new_client_def)
  show ?case
  proof (cases nb)
    case None
    with 3 sent have "accept_loop cfg as (s\<lparr>clients := clients s @ [?c], read_pty := True\<rparr>) = Some s'"
      by (simp add: pid_packet_def)
    from "3.IH"(1) [OF sent [unfolded pid_packet_def] refl None this] obtain new where
      "clients s' = clients s @ ?c # new" "list_all fresh new"
      "list_all (greets cfg) as \<longrightarrow> list_all (\<lambda>c. outbound c = encode [pid_packet cfg]) new"
      "history_of s' = history_of s \<and> child_exit s' = child_exit s \<and> m_rx s' = m_rx s \<and>
       m_tx s' = m_tx s \<and> m_in s' = m_in s"
      by auto
    with c o show ?thesis by (intro conjI exI [of _ "?c # new"]) auto
  next
    case (Some e)
    let ?s = "emit [ServerLog ''accept-error'' (''set_nonblocking failed: '' @ err_msg e)] s"
    from 3 sent Some have "accept_loop cfg as ?s = Some s'" by (simp add: pid_packet_def)
    from "3.IH"(2) [OF sent [unfolded pid_packet_def] refl Some this] show ?thesis by auto
  qed
qed auto

lemma wait_phase_fields [keeps, simp]:
  "clients (wait_phase cfg w s) = clients s" "history_of (wait_phase cfg w s) = history_of s"
  "read_pty (wait_phase cfg w s) = read_pty s" "m_rx (wait_phase cfg w s) = m_rx s"
  "m_in (wait_phase cfg w s) = m_in s" "m_tx (wait_phase cfg w s) = m_tx s"
  by (simp_all add: wait_phase_def)

lemma exit_phase_fields [keeps, simp]:
  "history_of (exit_phase at s) = history_of s" "child_exit (exit_phase at s) = child_exit s"
  "m_rx (exit_phase at s) = m_rx s" "m_in (exit_phase at s) = m_in s"
  "m_tx (exit_phase at s) = m_tx s" "effects (exit_phase at s) = effects s"
  by (simp_all add: exit_phase_def split: option.splits)

lemma exit_phase_nth:
  "i < length (clients s) \<Longrightarrow>
     clients (exit_phase at s) ! i =
       (case child_exit s of None \<Rightarrow> clients s ! i | Some st \<Rightarrow> exit_one (at i) st (clients s ! i))"
  by (simp add: exit_phase_def nth_enumerate_eq split: option.splits)

lemma length_exit_phase [simp]: "length (clients (exit_phase at s)) = length (clients s)"
  by (simp add: exit_phase_def split: option.splits)

lemma exit_phase_clients: "list_all2 evolves (clients s) (clients (exit_phase at s))"
  by (auto simp: list_all2_conv_all_nth exit_phase_nth evolves_exit_one split: option.splits)

lemma close_phase_fields [keeps, simp]:
  "history_of (close_phase now s) = history_of s" "child_exit (close_phase now s) = child_exit s"
  "m_rx (close_phase now s) = m_rx s" "m_in (close_phase now s) = m_in s"
  "m_tx (close_phase now s) = m_tx s" "effects (close_phase now s) = effects s"
  by (simp_all add: close_phase_def)

lemma close_phase_clients:
  "c' \<in> set (clients (close_phase now s)) \<Longrightarrow>
     \<exists>c \<in> set (clients s). evolves c c' \<and> \<not> disconnected c' \<and> c' = deadline_one now (flush_one c)"
  using evolves_trans [OF evolves_flush_one evolves_deadline_one] by (auto simp: close_phase_def)

end
