(* ===== verification/Lifecycle.thy ===== *)
theory Lifecycle
  imports Passes
begin

text \<open>
  The server over any number of passes: what holds of every client it ever keeps
  (\<open>client_invariant\<close>, a locale over an invariant that \<open>evolves\<close> keeps and a new connection has;
  interpretations \<open>bounded\<close> and \<open>framed\<close>), the exit state, and the shutdown: that it happens only
  after the child is gone and the clients are served, and that it happens within the deadline.
\<close>

fun after :: "tick_result \<Rightarrow> server" where
  "after (Continue s) = s"
| "after (Returned s) = s"

lemma after_finish [simp]:
  "clients (after (finish s)) = clients s" "history_of (after (finish s)) = history_of s"
  "child_exit (after (finish s)) = child_exit s" "m_rx (after (finish s)) = m_rx s"
  "m_in (after (finish s)) = m_in s"
  by (simp_all add: finish_def split: option.splits)

text \<open>The state of a pass after the exit phase, from the one after \<open>accept\<close>.\<close>

definition to_exit :: "server_cfg \<Rightarrow> tick_env \<Rightarrow> server \<Rightarrow> server" where
  "to_exit cfg env s1 =
     exit_phase (exit_at env)
       (read_phase cfg (read_at env) (wait_phase cfg (wait_answer env) (pty_phase s1)))"

lemma tick_stages:
  assumes "server_tick cfg env s = Some r"
  obtains s1 where
    "accept_loop cfg (accept_answers env) (poll_shutdown cfg (shutdown_requested env) s) = Some s1"
    "r = finish (close_phase (now_at env) (to_exit cfg env s1))"
  using assms by (auto simp: server_tick_def to_exit_def split: option.splits)

lemma to_exit_clients: "list_all2 evolves (clients s1) (clients (to_exit cfg env s1))"
proof -
  have "list_all2 evolves (clients s1) (clients (wait_phase cfg (wait_answer env) (pty_phase s1)))"
    using pty_phase_clients by simp
  then show ?thesis
    unfolding to_exit_def
    by (blast intro: list_all2_evolves_trans read_phase_clients exit_phase_clients)
qed

lemma to_exit_child_exit:
  "child_exit (to_exit cfg env s1) = child_exit (wait_phase cfg (wait_answer env) (pty_phase s1))"
  by (simp add: to_exit_def)

lemma to_exit_history:
  "length (snapshot (history_of s1)) \<le> HISTORY_CAP \<Longrightarrow>
     length (snapshot (history_of (to_exit cfg env s1))) \<le> HISTORY_CAP"
  by (simp add: to_exit_def pty_phase_history)

lemma exit_one_closing: "disconnected (exit_one t st c) \<or> close_after_drain (exit_one t st c) \<noteq> None"
  by (simp add: exit_one_def)

lemma to_exit_closing:
  assumes "child_exit (to_exit cfg env s1) \<noteq> None" "c \<in> set (clients (to_exit cfg env s1))"
  shows "disconnected c \<or> close_after_drain c \<noteq> None"
proof -
  let ?s = "read_phase cfg (read_at env) (wait_phase cfg (wait_answer env) (pty_phase s1))"
  from assms(2) obtain i where i: "i < length (clients ?s)" "c = clients (exit_phase (exit_at env) ?s) ! i"
    by (auto simp: to_exit_def in_set_conv_nth)
  moreover obtain st where "child_exit ?s = Some st" using assms(1) by (auto simp: to_exit_def)
  ultimately have "c = exit_one (exit_at env i) st (clients ?s ! i)" by (simp add: exit_phase_nth)
  then show ?thesis by (simp only: exit_one_closing)
qed

text \<open>Where a client of the next pass comes from.\<close>

lemma tick_client_origin:
  assumes "server_tick cfg env s = Some r" "c' \<in> set (clients (after r))"
  shows "\<not> disconnected c' \<and>
    (\<exists>c. evolves c c' \<and>
       (c \<in> set (clients s) \<or>
        fresh c \<and> (list_all (greets cfg) (accept_answers env) \<longrightarrow> outbound c = encode [pid_packet cfg])))"
proof -
  obtain s1 where acc: "accept_loop cfg (accept_answers env)
      (poll_shutdown cfg (shutdown_requested env) s) = Some s1"
    and r: "r = finish (close_phase (now_at env) (to_exit cfg env s1))"
    using assms(1) by (rule tick_stages)
  from accept_loop_fields [OF acc] obtain new where new: "clients s1 = clients s @ new"
    "list_all fresh new"
    "list_all (greets cfg) (accept_answers env) \<longrightarrow> list_all (\<lambda>c. outbound c = encode [pid_packet cfg]) new"
    by auto
  from assms(2) r obtain c1 where c1: "c1 \<in> set (clients (to_exit cfg env s1))" "evolves c1 c'"
    and d: "\<not> disconnected c'"
    using close_phase_clients by fastforce
  from c1(1) to_exit_clients [of s1 cfg env] obtain c where "c \<in> set (clients s1)" "evolves c c1"
    by (metis list_all2_conv_all_nth in_set_conv_nth)
  with new c1(2) d show ?thesis by (auto simp: list_all_iff dest: evolves_trans)
qed

subsection \<open>Invariants of the passes\<close>

locale pass_invariant =
  fixes inv :: "server \<Rightarrow> bool" and cfg :: server_cfg and ok_env :: "tick_env \<Rightarrow> bool"
  assumes inv_tick: "server_tick cfg env s = Some r \<Longrightarrow> ok_env env \<Longrightarrow> inv s \<Longrightarrow> inv (after r)"
begin

lemma inv_running:
  "server_loop cfg envs s = Running s' \<Longrightarrow> list_all ok_env envs \<Longrightarrow> inv s \<Longrightarrow> inv s'"
proof (induction envs arbitrary: s)
  case (Cons env envs)
  then obtain s1 where "server_tick cfg env s = Some (Continue s1)" "server_loop cfg envs s1 = Running s'"
    by (auto split: option.splits tick_result.splits)
  with Cons inv_tick [of env s "Continue s1"] show ?case by simp
qed simp

lemma inv_done:
  "server_loop cfg envs s = Done s' \<Longrightarrow> list_all ok_env envs \<Longrightarrow> inv s \<Longrightarrow> inv s'"
proof (induction envs arbitrary: s)
  case (Cons env envs)
  then obtain r where t: "server_tick cfg env s = Some r" by (auto split: option.splits)
  with Cons.prems inv_tick [OF t] have i: "inv (after r)" by simp
  show ?case
  proof (cases r)
    case (Continue s1)
    with t i Cons show ?thesis by simp
  next
    case (Returned s1)
    with t i Cons.prems show ?thesis by simp
  qed
qed simp

end

subsection \<open>Invariants of the clients\<close>

locale client_invariant =
  fixes I :: "client \<Rightarrow> bool" and cfg :: server_cfg and ok_env :: "tick_env \<Rightarrow> bool"
  assumes I_evolves: "I c \<Longrightarrow> evolves c c' \<Longrightarrow> I c'"
    and I_new: "ok_env env \<Longrightarrow> fresh c \<Longrightarrow>
      (list_all (greets cfg) (accept_answers env) \<longrightarrow> outbound c = encode [pid_packet cfg]) \<Longrightarrow> I c"
begin

lemma I_tick:
  "server_tick cfg env s = Some r \<Longrightarrow> ok_env env \<Longrightarrow> \<forall>c \<in> set (clients s). I c \<Longrightarrow>
     \<forall>c \<in> set (clients (after r)). I c"
  using tick_client_origin I_evolves I_new by blast

end

sublocale client_invariant \<subseteq> every: pass_invariant "\<lambda>s. \<forall>c \<in> set (clients s). I c" cfg ok_env
  by unfold_locales (rule I_tick)

definition queue_bounded :: "client \<Rightarrow> bool" where
  "queue_bounded c \<longleftrightarrow> length (send_queue c) \<le> SEND_QUEUE_CAP"

definition well_framed :: "server_cfg \<Rightarrow> client \<Rightarrow> bool" where
  "well_framed cfg c \<longleftrightarrow> (\<exists>ps. list_all packet_ok ps \<and> outbound c = encode (pid_packet cfg # ps))"

interpretation bounded: client_invariant queue_bounded cfg "\<lambda>env. True" for cfg
  by unfold_locales (auto simp: queue_bounded_def evolves_def fresh_def)

interpretation framed: client_invariant "well_framed cfg" cfg
  "\<lambda>env. list_all (greets cfg) (accept_answers env)" for cfg
proof
  fix c c'
  assume "well_framed cfg c" "evolves c c'"
  then obtain ps qs where "list_all packet_ok ps" "outbound c = encode (pid_packet cfg # ps)"
    "list_all packet_ok qs" "outbound c' = outbound c @ encode qs"
    by (auto simp: well_framed_def evolves_def grows_def)
  then show "well_framed cfg c'" unfolding well_framed_def by (intro exI [of _ "ps @ qs"]) simp
next
  fix env c
  assume "list_all (greets cfg) (accept_answers env)"
    "list_all (greets cfg) (accept_answers env) \<longrightarrow> outbound c = encode [pid_packet cfg]"
  then show "well_framed cfg c" unfolding well_framed_def by (intro exI [of _ "[]"]) simp
qed

subsection \<open>Invariants of the whole state\<close>

definition settled :: "server \<Rightarrow> bool" where
  "settled s \<longleftrightarrow>
     length (snapshot (history_of s)) \<le> HISTORY_CAP \<and>
     (\<forall>c \<in> set (clients s). \<not> disconnected c \<and> (child_exit s \<noteq> None \<longrightarrow> close_after_drain c \<noteq> None))"

lemma settled_tick:
  assumes "server_tick cfg env s = Some r" "settled s"
  shows "settled (after r)"
proof -
  obtain s1 where acc: "accept_loop cfg (accept_answers env)
      (poll_shutdown cfg (shutdown_requested env) s) = Some s1"
    and r: "r = finish (close_phase (now_at env) (to_exit cfg env s1))"
    using assms(1) by (rule tick_stages)
  have h: "length (snapshot (history_of s1)) \<le> HISTORY_CAP"
    using accept_loop_fields [OF acc] assms(2) by (simp add: settled_def)
  have c: "close_after_drain c' \<noteq> None"
    if "c' \<in> set (clients (after r))" "child_exit (after r) \<noteq> None" for c'
  proof -
    from that(1) r obtain c1 where c1: "c1 \<in> set (clients (to_exit cfg env s1))" "evolves c1 c'"
      "\<not> disconnected c'"
      using close_phase_clients by fastforce
    with to_exit_closing [of cfg env s1 c1] that(2) r show ?thesis
      by (auto simp: evolves_def)
  qed
  show ?thesis
    using r c to_exit_history [OF h] tick_client_origin [OF assms(1)]
    by (auto simp: settled_def)
qed

interpretation settling: pass_invariant settled cfg "\<lambda>env. True" for cfg
  by unfold_locales (rule settled_tick)

lemma settled_init: "settled (server_init rp prx ptx)"
  by (simp add: settled_def server_init_def)

subsection \<open>The exit state\<close>

fun is_chmod :: "effect \<Rightarrow> bool" where
  "is_chmod (SetPermissions p m) = True"
| "is_chmod e = False"

fun is_sigterm :: "effect \<Rightarrow> bool" where
  "is_sigterm (Kill p sig) = (sig = SIGTERM)"
| "is_sigterm e = False"

text \<open>
  Effects that neither clients nor the log cause: \<open>chmod\<close> of the socket, and \<open>SIGTERM\<close> to the child.
  Only the first and the fourth step of a pass produce them.
\<close>

locale rare_effect =
  fixes P :: "effect \<Rightarrow> bool"
  assumes P_resize: "\<not> P (SetWinsize r c)" "\<not> P (Kill p SIGWINCH)"
    and P_log: "\<not> P (ServerLog k m)"
begin

lemma P_handle_packet: "filter P (effects (snd (handle_packet inst pid pkt cs))) = filter P (effects (snd cs))"
  by (simp add: handle_packet_def Let_def P_resize)

lemma P_packet_loop: "filter P (effects (snd (packet_loop inst pid cs))) = filter P (effects (snd cs))"
proof (induction inst pid cs rule: packet_loop.induct)
  case (1 inst pid cs)
  then show ?case by (subst packet_loop.simps) (auto simp: P_handle_packet split: prod.splits option.splits)
qed

lemma P_read_client: "filter P (effects (snd (read_client inst pid cs))) = filter P (effects (snd cs))"
  by (simp add: read_client_def Let_def P_packet_loop split: prod.splits)

lemma P_read_phase: "filter P (effects (read_phase cfg at s)) = filter P (effects s)"
proof -
  have "filter P (effects (fold (\<lambda>i. read_client_packets (at i) pid i) is s)) = filter P (effects s)" for "is" pid
    by (induction "is" arbitrary: s) (simp_all add: read_client_packets_def Let_def P_read_client)
  then show ?thesis by (simp add: read_phase_def)
qed

lemma P_accept: "accept_loop cfg as s = Some s' \<Longrightarrow> filter P (effects s') = filter P (effects s)"
  by (induction cfg as s rule: accept_loop.induct) (auto simp: P_log split: option.splits prod.splits)

lemma P_finish: "filter P (effects (after (finish s))) = filter P (effects s)"
  by (simp add: finish_def P_log split: option.splits)

lemma P_tick:
  assumes "server_tick cfg env s = Some r"
  obtains s1 where "child_exit s1 = child_exit (poll_shutdown cfg (shutdown_requested env) s)"
    "filter P (effects s1) = filter P (effects (poll_shutdown cfg (shutdown_requested env) s))"
    "child_exit (after r) = child_exit (wait_phase cfg (wait_answer env) s1)"
    "filter P (effects (after r)) = filter P (effects (wait_phase cfg (wait_answer env) s1))"
proof -
  obtain s1 where acc: "accept_loop cfg (accept_answers env)
      (poll_shutdown cfg (shutdown_requested env) s) = Some s1"
    and r: "r = finish (close_phase (now_at env) (to_exit cfg env s1))"
    using assms by (rule tick_stages)
  show thesis
    using accept_loop_fields [OF acc] P_accept [OF acc]
    by (intro that [of "pty_phase s1"]) (simp_all add: r P_finish P_read_phase to_exit_def)
qed

end

interpretation chm: rare_effect is_chmod
  by unfold_locales simp_all

interpretation trm: rare_effect is_sigterm
  by unfold_locales (simp_all add: SIGTERM_def SIGWINCH_def)

definition announced :: "server_cfg \<Rightarrow> server \<Rightarrow> bool" where
  "announced cfg s \<longleftrightarrow>
     filter is_chmod (effects s) = (if child_exit s = None then [] else [SetPermissions (path cfg) 392])"

lemma announced_tick:
  assumes "server_tick cfg env s = Some r" "announced cfg s"
  shows "announced cfg (after r)"
  using assms(1)
proof (rule chm.P_tick)
  fix s1
  assume h: "child_exit s1 = child_exit (poll_shutdown cfg (shutdown_requested env) s)"
    "filter is_chmod (effects s1) = filter is_chmod (effects (poll_shutdown cfg (shutdown_requested env) s))"
    "child_exit (after r) = child_exit (wait_phase cfg (wait_answer env) s1)"
    "filter is_chmod (effects (after r)) = filter is_chmod (effects (wait_phase cfg (wait_answer env) s1))"
  have "announced cfg s1"
    using assms(2) h(1,2) by (auto simp: announced_def poll_shutdown_def)
  with h(3,4) show ?thesis by (auto simp: announced_def wait_phase_def)
qed

text \<open>The child is sent \<open>SIGTERM\<close> once at most, and only together with recording the exit.\<close>

definition terminated_once :: "server_cfg \<Rightarrow> server \<Rightarrow> bool" where
  "terminated_once cfg s \<longleftrightarrow>
     filter is_sigterm (effects s) = [] \<or>
     filter is_sigterm (effects s) = [Kill (- child_pid cfg) SIGTERM] \<and> child_exit s = Some (128 + word_of_nat SIGTERM)"

lemma terminated_once_tick:
  assumes "server_tick cfg env s = Some r" "terminated_once cfg s"
  shows "terminated_once cfg (after r)"
  using assms(1)
proof (rule trm.P_tick)
  fix s1
  assume h: "child_exit s1 = child_exit (poll_shutdown cfg (shutdown_requested env) s)"
    "filter is_sigterm (effects s1) = filter is_sigterm (effects (poll_shutdown cfg (shutdown_requested env) s))"
    "child_exit (after r) = child_exit (wait_phase cfg (wait_answer env) s1)"
    "filter is_sigterm (effects (after r)) = filter is_sigterm (effects (wait_phase cfg (wait_answer env) s1))"
  have "terminated_once cfg s1"
    using assms(2) h(1,2) by (auto simp: terminated_once_def poll_shutdown_def split: if_splits)
  with h(3,4) show ?thesis by (auto simp: terminated_once_def wait_phase_def)
qed

lemma child_exit_tick:
  assumes "server_tick cfg env s = Some r" "child_exit s = Some st"
  shows "child_exit (after r) = Some st"
proof -
  obtain s1 where acc: "accept_loop cfg (accept_answers env)
      (poll_shutdown cfg (shutdown_requested env) s) = Some s1"
    and r: "r = finish (close_phase (now_at env) (to_exit cfg env s1))"
    using assms(1) by (rule tick_stages)
  from accept_loop_fields [OF acc] assms(2) have "child_exit s1 = Some st"
    by (simp add: poll_shutdown_def)
  then show ?thesis unfolding r by (simp add: to_exit_child_exit wait_phase_def)
qed

interpretation announcing: pass_invariant "announced cfg" cfg "\<lambda>env. True" for cfg
  by unfold_locales (rule announced_tick)

interpretation terminating: pass_invariant "terminated_once cfg" cfg "\<lambda>env. True" for cfg
  by unfold_locales (rule terminated_once_tick)

interpretation exited: pass_invariant "\<lambda>s. child_exit s = Some st" cfg "\<lambda>env. True" for cfg st
  by unfold_locales (rule child_exit_tick)

lemma server_loop_done:
  "server_loop cfg envs s = Done s' \<Longrightarrow>
     clients s' = [] \<and> (\<exists>st. child_exit s' = Some st) \<and>
     (\<exists>es m. effects s' = es @ [ServerLog ''shutdown'' m])"
proof (induction envs arbitrary: s)
  case (Cons env envs)
  then obtain r where t: "server_tick cfg env s = Some r" by (auto split: option.splits)
  show ?case
  proof (cases r)
    case (Continue s1)
    with t Cons show ?thesis by simp
  next
    case (Returned s1)
    from t obtain s2 where "r = finish s2" by (auto elim: tick_stages)
    with Returned t Cons.prems show ?thesis
      by (auto simp: finish_def split: option.splits if_splits)
  qed
qed simp

subsection \<open>The shutdown completes\<close>

definition closing_by :: "nat \<Rightarrow> server \<Rightarrow> bool" where
  "closing_by T s \<longleftrightarrow>
     child_exit s \<noteq> None \<and> (\<forall>c \<in> set (clients s). \<exists>t \<le> T. close_after_drain c = Some t)"

fun refused :: "accept_answer \<Rightarrow> bool" where
  "refused (AcceptErr e) = True"
| "refused (Accepted sk nb) = False"

lemma accept_refused: "list_all refused as \<Longrightarrow> accept_loop cfg as s = Some s"
  by (induction cfg as s rule: accept_loop.induct) auto

lemma closing_tick_stages:
  assumes "closing_by T s" "list_all refused (accept_answers env)"
  shows "server_tick cfg env s = Some (finish (close_phase (now_at env) (to_exit cfg env s)))"
    and "closing_by T (to_exit cfg env s)"
    and "closing_by T (close_phase (now_at env) (to_exit cfg env s))"
proof -
  from assms(1) have "poll_shutdown cfg (shutdown_requested env) s = s"
    by (simp add: poll_shutdown_def closing_by_def)
  with assms(2) show "server_tick cfg env s = Some (finish (close_phase (now_at env) (to_exit cfg env s)))"
    by (simp add: server_tick_def to_exit_def accept_refused)
  have e: "child_exit (to_exit cfg env s) = child_exit s"
    using assms(1) by (simp add: to_exit_child_exit wait_phase_def closing_by_def)
  have "\<exists>t \<le> T. close_after_drain c1 = Some t" if c1: "c1 \<in> set (clients (to_exit cfg env s))" for c1
  proof -
    from c1 to_exit_clients [of s cfg env] obtain c where "c \<in> set (clients s)" "evolves c c1"
      by (metis list_all2_conv_all_nth in_set_conv_nth)
    with assms(1) show ?thesis by (auto simp: closing_by_def evolves_def)
  qed
  then show c: "closing_by T (to_exit cfg env s)" using e assms(1) by (simp add: closing_by_def)
  have "\<exists>t \<le> T. close_after_drain c1 = Some t"
    if c1: "c1 \<in> set (clients (close_phase (now_at env) (to_exit cfg env s)))" for c1
  proof -
    from close_phase_clients [OF c1] obtain c where "c \<in> set (clients (to_exit cfg env s))" "evolves c c1"
      by blast
    with c show ?thesis by (auto simp: closing_by_def evolves_def)
  qed
  then show "closing_by T (close_phase (now_at env) (to_exit cfg env s))"
    using e assms(1) by (simp add: closing_by_def)
qed

lemma flush_one_close [simp]: "close_after_drain (flush_one c) = close_after_drain c"
  by (simp add: flush_one_alt Let_def)

lemma expired:
  "close_after_drain c = Some t \<Longrightarrow> t \<le> T \<Longrightarrow> T + EXIT_DRAIN_DEADLINE \<le> now \<Longrightarrow>
     disconnected (deadline_one now (flush_one c))"
  by (auto simp: deadline_one_def)

lemma closing_tick_returns:
  assumes "closing_by T s" "list_all refused (accept_answers env)"
    "T + EXIT_DRAIN_DEADLINE \<le> now_at env"
  shows "\<exists>s'. server_tick cfg env s = Some (Returned s')"
proof -
  let ?s = "to_exit cfg env s"
  have "closing_by T ?s" using assms(1,2) by (rule closing_tick_stages)
  then have "disconnected (deadline_one (now_at env) (flush_one c))" if "c \<in> set (clients ?s)" for c
    using that expired [OF _ _ assms(3)] by (auto simp: closing_by_def)
  then have "clients (close_phase (now_at env) ?s) = []"
    by (auto simp: close_phase_def filter_empty_conv)
  moreover have "child_exit ?s \<noteq> None" using \<open>closing_by T ?s\<close> by (simp add: closing_by_def)
  ultimately show ?thesis
    using closing_tick_stages(1) [OF assms(1,2)] by (auto simp: finish_def split: option.splits)
qed

lemma closing_loop_returns:
  assumes "closing_by T s" "\<forall>env \<in> set envs. list_all refused (accept_answers env)"
    "\<exists>env \<in> set envs. T + EXIT_DRAIN_DEADLINE \<le> now_at env"
  shows "\<exists>s'. server_loop cfg envs s = Done s'"
  using assms
proof (induction envs arbitrary: s)
  case (Cons env envs)
  let ?n = "close_phase (now_at env) (to_exit cfg env s)"
  have r: "list_all refused (accept_answers env)" using Cons.prems(2) by simp
  have t: "server_tick cfg env s = Some (finish ?n)" and c: "closing_by T ?n"
    using closing_tick_stages [OF Cons.prems(1) r] by blast+
  show ?case
  proof (cases "finish ?n")
    case (Continue s1)
    then have "s1 = ?n" by (auto simp: finish_def split: option.splits if_splits)
    moreover have "\<not> T + EXIT_DRAIN_DEADLINE \<le> now_at env"
      using closing_tick_returns [OF Cons.prems(1) r, of cfg] t Continue by auto
    ultimately show ?thesis using t c Continue Cons by auto
  next
    case (Returned s1)
    with t show ?thesis by simp
  qed
qed simp

end
