(* ===== verification/Guarantees.thy ===== *)
theory Guarantees
  imports Lifecycle
begin

text \<open>
  What the server promises its clients and its user, as properties of \<open>server_loop\<close>, of one pass
  and of its phases: bounded memory, whole packets, the exit status told once and to everyone,
  no reply cut short, and a shutdown that happens, but not before its time.
\<close>

subsection \<open>Flushing a healthy client\<close>

lemma try_flush_good:
  "healthy c \<Longrightarrow> fst (try_flush_client c) = Inr () \<and> healthy (snd (try_flush_client c))"
proof (cases "flush_loop (tx (stream c)) (send_queue c)")
  case (fields r ws q acc)
  assume "healthy c"
  with flush_loop_good [OF fields] show ?thesis
    by (simp add: try_flush_client_def healthy_def fields)
qed

lemma flush_one_good: "healthy c \<Longrightarrow> \<not> disconnected c \<Longrightarrow> flush_one c = snd (try_flush_client c)"
  by (simp add: flush_one_alt Let_def try_flush_good)

lemma close_phase_member:
  "c \<in> set (clients s) \<Longrightarrow> \<not> disconnected (deadline_one now (flush_one c)) \<Longrightarrow>
     deadline_one now (flush_one c) \<in> set (clients (close_phase now s))"
  by (simp add: close_phase_def)

lemma deadline_one_keeps [simp]:
  "outbound (deadline_one now c) = outbound c" "stream (deadline_one now c) = stream c"
  "send_queue (deadline_one now c) = send_queue c"
  by (auto simp: deadline_one_def split: option.splits)

lemma exit_one_sends:
  "\<not> disconnected c \<Longrightarrow> close_after_drain c = None \<Longrightarrow> queue_fits c (exit_packet st) \<Longrightarrow>
     outbound (exit_one t st c) = outbound c @ packet_bytes (exit_packet st) \<and>
     close_after_drain (exit_one t st c) = Some t"
  using send_nonblocking_outbound [of c "exit_packet st"]
  by (simp add: exit_one_def outbound_def)

lemma exit_one_again: "exit_one t' st' (exit_one t st c) = exit_one t st c"
  using exit_one_closing [of t st c] by (simp add: exit_one_def [of t'])

lemma flush_at_once:
  "send_queue c \<noteq> [] \<Longrightarrow> tx (stream c) = [Count n] \<Longrightarrow> length (send_queue c) \<le> n \<Longrightarrow>
     try_flush_client c =
       (Inr (), c\<lparr>stream := (stream c)\<lparr>tx := [], wire := wire (stream c) @ send_queue c\<rparr>, send_queue := []\<rparr>)"
  by (cases "send_queue c") (auto simp: try_flush_client_def)

lemma read_client_idle:
  "rx (stream c) = [] \<Longrightarrow> buf c = [] \<Longrightarrow>
     read_client inst pid (c, s) = (c\<lparr>stream := (stream c)\<lparr>rx := []\<rparr>, buf := []\<rparr>, s)"
  by (simp add: read_client_def Let_def read_loop.simps eagain_def packet_loop.simps pop_packet_def)

subsection \<open>Properties of the running server\<close>

text \<open>C4: Whatever the kernel, the clock and the clients do, in every state between two passes of a
  running server the history is within \<open>HISTORY_CAP\<close>, every client's queue is within
  \<open>SEND_QUEUE_CAP\<close>, no disconnected client is kept, and once the child's exit is recorded every
  client is scheduled for closing.\<close>

theorem server_state_bounded:
  assumes "server_loop cfg envs (server_init rp prx ptx) = Running s"
  shows "length (snapshot (history_of s)) \<le> HISTORY_CAP \<and>
    (\<forall>c \<in> set (clients s). length (send_queue c) \<le> SEND_QUEUE_CAP \<and> \<not> disconnected c \<and>
       (child_exit s \<noteq> None \<longrightarrow> close_after_drain c \<noteq> None))"
proof -
  have "settled s"
    using assms by (rule settling.inv_running) (simp_all add: settled_init list_all_iff)
  moreover have "\<forall>c \<in> set (clients s). queue_bounded c"
    using assms by (rule bounded.every.inv_running) (simp_all add: server_init_def list_all_iff)
  ultimately show ?thesis by (simp add: settled_def queue_bounded_def)
qed

definition demo_macros :: wait_macros where
  "demo_macros =
     \<lparr>WIFEXITED = (\<lambda>s. s AND 127 = 0), WEXITSTATUS = (\<lambda>s. drop_bit 8 s AND 255),
      WIFSIGNALED = (\<lambda>s. s AND 127 \<noteq> 0 \<and> s AND 127 \<noteq> 127), WTERMSIG = (\<lambda>s. s AND 127)\<rparr>"

definition demo_cfg :: server_cfg where
  "demo_cfg = \<lparr>server_pid = 77, child_pid = 78, path = ''p'', macros = demo_macros\<rparr>"

definition demo_sock :: sock where
  "demo_sock = \<lparr>rx = [ReadErr eagain], tx = [Count 16], wire = []\<rparr>"

definition quiet_env :: tick_env where
  "quiet_env = \<lparr>shutdown_requested = False, accept_answers = [AcceptErr eagain], wait_answer = (0, 0),
     read_at = (\<lambda>i. 0), exit_at = (\<lambda>i. 0), now_at = 0\<rparr>"

definition demo_env :: tick_env where
  "demo_env = quiet_env\<lparr>accept_answers := [Accepted demo_sock None, AcceptErr eagain]\<rparr>"

lemma demo_pid_bytes:
  "packet_bytes (pid_packet demo_cfg) = [5, 0, 0, 0, 8, 0, 0, 0, 77, 0, 0, 0, 0, 0, 0, 0]"
  by (simp add: packet_bytes_def pid_packet_def demo_cfg_def u32_to_ne_bytes_def u64_to_ne_bytes_def
      MSG_PID_def le_bytes_numeral)

lemma demo_greeting:
  "send_packet_blocking (pid_packet demo_cfg) demo_sock =
     Some (Inr (), \<lparr>rx = [ReadErr eagain], tx = [], wire = packet_bytes (pid_packet demo_cfg)\<rparr>)"
  by (simp add: send_packet_blocking_def demo_pid_bytes demo_sock_def write_all_def)

definition demo_client :: client where
  "demo_client = new_client \<lparr>rx = [], tx = [], wire = packet_bytes (pid_packet demo_cfg)\<rparr>"

lemma demo_run:
  "server_loop demo_cfg [demo_env] (server_init False [] []) =
     Running ((server_init False [] [])\<lparr>clients := [demo_client], read_pty := True\<rparr>)"
proof -
  have acc: "accept_loop demo_cfg (accept_answers demo_env) (server_init False [] []) =
      Some ((server_init False [] [])\<lparr>clients := [new_client \<lparr>rx = [ReadErr eagain], tx = [],
        wire = packet_bytes (pid_packet demo_cfg)\<rparr>], read_pty := True\<rparr>)"
    using demo_greeting by (simp add: demo_env_def quiet_env_def pid_packet_def server_init_def)
  have rd: "read_loop [ReadErr eagain] [] = (Drained, [], [])"
    by (simp add: read_loop.simps eagain_def)
  have pp: "packet_loop t p (c\<lparr>buf := []\<rparr>, s) = (c\<lparr>buf := []\<rparr>, s)" for t p c s
    by (simp add: packet_loop.simps pop_packet_def)
  show ?thesis
    by (simp add: server_tick_def poll_shutdown_def acc)
      (simp add: demo_env_def quiet_env_def pty_phase_def pty_loop.simps server_init_def eagain_def
        wait_phase_def read_phase_def read_client_packets_def read_client_def rd [unfolded eagain_def]
        packet_loop.simps pop_packet_def demo_client_def
        exit_phase_def close_phase_def flush_one_def try_flush_client_def deadline_one_def
        finish_def new_client_def demo_cfg_def Let_def)
qed

theorem server_state_bounded_witness:
  "length (send_queue demo_client) \<le> SEND_QUEUE_CAP \<and> \<not> disconnected demo_client"
  using server_state_bounded [OF demo_run] by simp

text \<open>C3: A client whose greeting got through only ever sees well-formed packets: whatever happens over
  any number of passes (overflow, write errors and partial writes included), the bytes the server
  has committed to each client it keeps are the encodings of a sequence of packets, the first the
  \<open>MSG_PID\<close> with the server's pid, so the receiver's decoder takes all of them and is left with
  nothing.\<close>

theorem clients_see_whole_packets:
  assumes "server_loop cfg envs (server_init rp prx ptx) = Running s"
    and "\<forall>env \<in> set envs. list_all (greets cfg) (accept_answers env)"
    and "c \<in> set (clients s)"
  shows "\<exists>ps. pop_all (outbound c) = (pid_packet cfg # ps, []) \<and>
    outbound c = encode (pid_packet cfg # ps)"
proof -
  have "\<forall>c \<in> set (clients s). well_framed cfg c"
    using assms(1) by (rule framed.every.inv_running) (use assms(2) in \<open>simp_all add: server_init_def list_all_iff\<close>)
  with assms(3) obtain ps where ps: "list_all packet_ok ps" "outbound c = encode (pid_packet cfg # ps)"
    by (auto simp: well_framed_def)
  moreover have "packet_ok (pid_packet cfg)" by (simp add: packet_ok_def pid_packet_def MAX_PAYLOAD_def)
  ultimately have "pop_all (pk.stream_of (pid_packet cfg # ps) @ []) = (pid_packet cfg # ps, [])"
    by (subst pk.drain_stream) (simp_all add: pk.drain_idle pk.dec_Nil)
  with ps(2) show ?thesis by (auto simp: pk.stream_of_def encode_def)
qed

lemma demo_greets: "list_all (greets demo_cfg) (accept_answers demo_env)"
  using demo_greeting by (simp add: greets_def demo_env_def quiet_env_def) (simp add: demo_sock_def)

theorem clients_see_whole_packets_witness:
  "\<exists>ps. pop_all (outbound demo_client) = (pid_packet demo_cfg # ps, [])"
  using clients_see_whole_packets [OF demo_run, of demo_client] demo_greets by auto

text \<open>A termination request is carried out within its pass: the child's process group gets
  \<open>SIGTERM\<close> once, and the exit is recorded as 143, which no \<open>waitpid\<close> answer of that or a later
  pass changes.\<close>

lemma shutdown_request_recorded:
  assumes "server_tick cfg env s = Some r" and "shutdown_requested env" and "child_exit s = None"
  shows "child_exit (after r) = Some 143 \<and>
    effects (poll_shutdown cfg (shutdown_requested env) s) =
      effects s @ [ServerLog ''shutdown'' ''signal-requested SIGTERM/SIGINT'',
                   Kill (- child_pid cfg) 15, SetPermissions (path cfg) 392] \<and>
    (server_loop cfg envs (after r) = Running s' \<longrightarrow> child_exit s' = Some 143)"
proof -
  let ?s0 = "poll_shutdown cfg (shutdown_requested env) s"
  have e0: "child_exit ?s0 = Some 143"
    using assms(2,3) by (simp add: poll_shutdown_def SIGTERM_def)
  obtain s1 where acc: "accept_loop cfg (accept_answers env) ?s0 = Some s1"
    and r: "r = finish (close_phase (now_at env) (to_exit cfg env s1))"
    using assms(1) by (rule tick_stages)
  have "child_exit s1 = Some 143" using accept_loop_fields [OF acc] e0 by simp
  then have "child_exit (after r) = Some 143"
    unfolding r by (simp add: to_exit_child_exit wait_phase_def)
  with exited.inv_running [of cfg envs "after r" s' 143] assms(2,3) show ?thesis
    by (simp add: poll_shutdown_def SIGTERM_def list_all_iff)
qed

lemma idle_tick:
  "server_tick demo_cfg (quiet_env\<lparr>shutdown_requested := True\<rparr>) (server_init False [] []) =
     Some (Returned (emit
       [ServerLog ''shutdown'' ''signal-requested SIGTERM/SIGINT'', Kill (- 78) 15,
        SetPermissions ''p'' 392, ServerLog ''shutdown'' ''clean child_exit=143 clients=0'']
       ((server_init False [] [])\<lparr>child_exit := Some 143\<rparr>)))"
  by (simp add: server_tick_def poll_shutdown_def quiet_env_def server_init_def pty_phase_def wait_phase_def
      read_phase_def exit_phase_def close_phase_def finish_def emit_def SIGTERM_def demo_cfg_def
      show_int_def show_nat.simps digit_char_def char_of_def bit_0)

subsection \<open>Leaving\<close>

lemma settled_closing_by: "settled s \<Longrightarrow> child_exit s \<noteq> None \<Longrightarrow> \<exists>T. closing_by T s"
proof -
  assume a: "settled s" "child_exit s \<noteq> None"
  let ?t = "\<lambda>c. the (close_after_drain c)"
  have "\<exists>t \<le> sum_list (map ?t (clients s)). close_after_drain c = Some t" if "c \<in> set (clients s)" for c
    using that a member_le_sum_list [of "?t c" "map ?t (clients s)"] by (auto simp: settled_def)
  with a show ?thesis unfolding closing_by_def by blast
qed

lemma server_loop_append:
  "server_loop cfg (envs @ envs') s =
     (case server_loop cfg envs s of Running s' \<Rightarrow> server_loop cfg envs' s' | r \<Rightarrow> r)"
  by (induction envs arbitrary: s) (auto split: option.splits tick_result.splits)

text \<open>C5: The server comes to an end: from every reachable state in which the child's exit is recorded
  there is an instant such that, whatever the remaining clients do (or fail to do), once the clock
  has passed it by \<open>EXIT_DRAIN_DEADLINE\<close> in some pass and no new connection arrives, \<open>server_loop\<close>
  has returned, with the recorded status, no client left, and its last effect the clean shutdown
  line. Peers that never read cannot hold it.\<close>

theorem server_terminates:
  assumes "server_loop cfg envs (server_init rp prx ptx) = Running s" and "child_exit s = Some st"
  shows "\<exists>T. \<forall>envs'. (\<forall>env \<in> set envs'. list_all refused (accept_answers env)) \<longrightarrow>
      (\<exists>env \<in> set envs'. T + EXIT_DRAIN_DEADLINE \<le> now_at env) \<longrightarrow>
      (\<exists>s'. server_loop cfg (envs @ envs') (server_init rp prx ptx) = Done s' \<and>
        child_exit s' = Some st \<and> clients s' = [] \<and>
        (\<exists>es m. effects s' = es @ [ServerLog ''shutdown'' m]))"
proof -
  have "settled s"
    using assms(1) by (rule settling.inv_running) (simp_all add: settled_init list_all_iff)
  with assms(2) obtain T where T: "closing_by T s" using settled_closing_by by blast
  show ?thesis
  proof (intro exI [of _ T] allI impI)
    fix envs' :: "tick_env list"
    assume "\<forall>env \<in> set envs'. list_all refused (accept_answers env)"
      "\<exists>env \<in> set envs'. T + EXIT_DRAIN_DEADLINE \<le> now_at env"
    then obtain s' where d: "server_loop cfg envs' s = Done s'"
      using closing_loop_returns [OF T] by blast
    moreover have "child_exit s' = Some st"
      using d by (rule exited.inv_done) (use assms(2) in \<open>simp_all add: list_all_iff\<close>)
    ultimately show "\<exists>s'. server_loop cfg (envs @ envs') (server_init rp prx ptx) = Done s' \<and>
        child_exit s' = Some st \<and> clients s' = [] \<and> (\<exists>es m. effects s' = es @ [ServerLog ''shutdown'' m])"
      using server_loop_done [OF d] assms(1) by (simp add: server_loop_append)
  qed
qed

lemma stopped_run:
  "server_loop demo_cfg [demo_env, quiet_env\<lparr>shutdown_requested := True\<rparr>] (server_init False [] []) =
     Running ((emit [ServerLog ''shutdown'' ''signal-requested SIGTERM/SIGINT'', Kill (- 78) 15,
         SetPermissions ''p'' 392] (server_init False [] []))
       \<lparr>clients := [snd (send_packet_nonblocking demo_client (exit_packet 143))\<lparr>close_after_drain := Some 0\<rparr>],
        read_pty := True, child_exit := Some 143\<rparr>)"
proof -
  let ?s = "(server_init False [] [])\<lparr>clients := [demo_client], read_pty := True\<rparr>"
  have idle: "read_client t p (demo_client, s) = (demo_client, s)" for t p s
    using read_client_idle [of demo_client t p s] by (simp add: demo_client_def new_client_def)
  have q: "send_packet_nonblocking demo_client (exit_packet 143) =
      (Inr (), demo_client\<lparr>send_queue := packet_bytes (exit_packet 143)\<rparr>)"
    by (simp add: send_nonblocking_cases queue_fits_def SEND_QUEUE_CAP_def exit_packet_def
        try_flush_client_def demo_client_def new_client_def packet_bytes_def u32_to_ne_bytes_def le_bytes_numeral)
  have "server_loop demo_cfg [quiet_env\<lparr>shutdown_requested := True\<rparr>] ?s =
     Running ((emit [ServerLog ''shutdown'' ''signal-requested SIGTERM/SIGINT'', Kill (- 78) 15,
         SetPermissions ''p'' 392] (server_init False [] []))
       \<lparr>clients := [snd (send_packet_nonblocking demo_client (exit_packet 143))\<lparr>close_after_drain := Some 0\<rparr>],
        read_pty := True, child_exit := Some 143\<rparr>)"
  proof -
    let ?p = "(emit [ServerLog ''shutdown'' ''signal-requested SIGTERM/SIGINT'', Kill (- 78) 15,
        SetPermissions ''p'' 392] ?s)\<lparr>child_exit := Some 143\<rparr>"
    let ?c = "snd (send_packet_nonblocking demo_client (exit_packet 143))\<lparr>close_after_drain := Some 0\<rparr>"
    have p: "poll_shutdown demo_cfg True ?s = ?p"
      by (simp add: poll_shutdown_def server_init_def SIGTERM_def demo_cfg_def)
    have pty: "pty_phase ?p = ?p"
      by (simp add: pty_phase_def pty_loop.simps server_init_def eagain_def emit_def)
    have wait: "wait_phase demo_cfg w ?p = ?p" for w by (simp add: wait_phase_def)
    have rd: "read_phase demo_cfg at ?p = ?p" for at
      by (simp add: read_phase_def read_client_packets_def idle)
    have ex: "clients (exit_phase (\<lambda>i. 0) ?p) = [?c]"
      by (simp add: exit_phase_def exit_one_def) (simp add: demo_client_def new_client_def)
    obtain b bs where b: "packet_bytes (exit_packet 143) = b # bs"
      using packet_bytes_not_Nil [of "exit_packet 143"] by (cases "packet_bytes (exit_packet 143)") auto
    have c: "?c = demo_client\<lparr>send_queue := b # bs, close_after_drain := Some 0\<rparr>" by (simp add: q b)
    have "flush_one ?c = ?c" "deadline_one 0 ?c = ?c" "\<not> disconnected ?c"
      unfolding c by (simp_all add: flush_one_def deadline_one_def try_flush_client_def demo_client_def
          new_client_def EXIT_DRAIN_DEADLINE_def)
    then have cl: "close_phase 0 (exit_phase (\<lambda>i. 0) ?p) = ?p\<lparr>clients := [?c]\<rparr>"
      by (simp add: close_phase_def ex) (simp add: exit_phase_def)
    have "server_tick demo_cfg (quiet_env\<lparr>shutdown_requested := True\<rparr>) ?s =
        Some (finish (close_phase 0 (exit_phase (\<lambda>i. 0) ?p)))"
      by (simp add: server_tick_def quiet_env_def p pty wait rd)
    then show ?thesis by (simp add: cl finish_def)
  qed
  with demo_run show ?thesis
    using server_loop_append [of demo_cfg "[demo_env]" "[quiet_env\<lparr>shutdown_requested := True\<rparr>]"
        "server_init False [] []"] by simp
qed

theorem server_terminates_witness:
  "\<exists>T. \<forall>envs'. (\<forall>env \<in> set envs'. list_all refused (accept_answers env)) \<longrightarrow>
      (\<exists>env \<in> set envs'. T + EXIT_DRAIN_DEADLINE \<le> now_at env) \<longrightarrow>
      (\<exists>s'. server_loop demo_cfg ([demo_env, quiet_env\<lparr>shutdown_requested := True\<rparr>] @ envs')
          (server_init False [] []) = Done s')"
  using server_terminates [OF stopped_run, of 143] by simp blast

text \<open>C25: The exit status is final and marked on disk once: over any run from the start, the socket's
  mode is changed to \<open>0o610\<close> exactly once if the exit has been recorded and never before, and a
  status that is recorded is not replaced, whatever signals or \<open>waitpid\<close> answers come later.\<close>

theorem exit_recorded_once:
  assumes "server_loop cfg envs (server_init rp prx ptx) = Running s"
  shows "filter is_chmod (effects s) =
      (if child_exit s = None then [] else [SetPermissions (path cfg) 392]) \<and>
    (child_exit s = Some st \<longrightarrow> server_loop cfg envs' s = Running s' \<longrightarrow> child_exit s' = Some st)"
proof -
  have "announced cfg s"
    using assms by (rule announcing.inv_running)
      (simp_all add: announced_def server_init_def list_all_iff)
  moreover have "child_exit s = Some st \<Longrightarrow> server_loop cfg envs' s = Running s' \<Longrightarrow> child_exit s' = Some st"
    using exited.inv_running [of cfg envs' s s' st] by (simp add: list_all_iff)
  ultimately show ?thesis by (auto simp: announced_def)
qed

theorem exit_recorded_once_witness:
  "\<exists>s. server_loop demo_cfg [demo_env, quiet_env\<lparr>shutdown_requested := True\<rparr>] (server_init False [] []) = Running s \<and>
     child_exit s = Some 143 \<and> filter is_chmod (effects s) = [SetPermissions ''p'' 392]"
  using exit_recorded_once [OF stopped_run] stopped_run by (auto simp: demo_cfg_def)

text \<open>\<open>server_loop\<close> returns only when its work is done: the child's exit has been recorded, and
  every client has been disconnected.\<close>

lemma server_returns_when_done:
  assumes "server_loop cfg envs s = Done s'"
  shows "clients s' = [] \<and> child_exit s' \<noteq> None \<and> (\<exists>es m. effects s' = es @ [ServerLog ''shutdown'' m])"
  using server_loop_done [OF assms] by auto

text \<open>Everyone is told the exit status, once: in the exit phase each client that is still connected
  and not already closing, with room in its queue, has exactly one \<open>MSG_EXIT\<close> packet appended, whose
  payload decodes to the recorded status, and is scheduled for closing at that time; a client that
  is already closing (a dump, or a second pass) is sent nothing.\<close>

lemma exit_announced:
  assumes "i < length (clients s)" and "child_exit s = Some st"
    and "\<not> disconnected (clients s ! i)"
    and "length (send_queue (clients s ! i)) + 12 \<le> SEND_QUEUE_CAP"
  shows "outbound (clients (exit_phase at s) ! i) = outbound (clients s ! i) @
      (if close_after_drain (clients s ! i) = None then packet_bytes (exit_packet st) else []) \<and>
    close_after_drain (clients (exit_phase at s) ! i) \<noteq> None \<and>
    exit_phase at' (exit_phase at s) = exit_phase at s \<and>
    mtyp (exit_packet st) = MSG_EXIT \<and> read_u32 (payload (exit_packet st)) = Some st"
proof -
  have "length (packet_bytes (exit_packet st)) = 12" by (simp add: exit_packet_def)
  with assms(4) have fits: "queue_fits (clients s ! i) (exit_packet st)" by (simp add: queue_fits_def)
  have "clients (exit_phase at s) ! i = exit_one (at i) st (clients s ! i)"
    using assms(1,2) by (simp add: exit_phase_nth)
  then have "outbound (clients (exit_phase at s) ! i) = outbound (clients s ! i) @
      (if close_after_drain (clients s ! i) = None then packet_bytes (exit_packet st) else []) \<and>
    close_after_drain (clients (exit_phase at s) ! i) \<noteq> None"
    using assms(3) fits exit_one_sends [of "clients s ! i" st "at i"] by (simp add: exit_one_def)
  moreover have "clients (exit_phase at' (exit_phase at s)) = clients (exit_phase at s)"
    using assms(2) by (intro nth_equalityI) (simp_all add: exit_phase_nth exit_one_again)
  then have "exit_phase at' (exit_phase at s) = exit_phase at s"
    using assms(2) by (simp add: exit_phase_def)
  ultimately show ?thesis
    using read_u32_bytes [of st "[]"] by (simp add: exit_packet_def)
qed

text \<open>C22: No reply is cut short before the deadline: at the end of a pass a client scheduled for closing
  whose socket only delays is either kept, with everything that was committed to it still on its
  way, or let go with every committed byte (replay, terminal output and the exit status) on the
  wire.\<close>

theorem closing_client_is_drained:
  assumes "c \<in> set (clients s)" and "healthy c" and "\<not> disconnected c"
    and "close_after_drain c = Some t" and "now - t < EXIT_DRAIN_DEADLINE"
  shows "(\<exists>c' \<in> set (clients (close_phase now s)). outbound c' = outbound c \<and> send_queue c' \<noteq> []) \<or>
    wire (stream (deadline_one now (flush_one c))) = outbound c"
proof -
  let ?f = "flush_one c"
  have f: "?f = snd (try_flush_client c)" using assms(2,3) by (rule flush_one_good)
  then have k: "outbound ?f = outbound c" "\<not> disconnected ?f" "close_after_drain ?f = Some t"
    using assms(3,4) by simp_all
  show ?thesis
  proof (cases "send_queue ?f = []")
    case True
    with k(1) show ?thesis by (simp add: outbound_def)
  next
    case False
    with k assms(5) have "deadline_one now ?f = ?f" by (simp add: deadline_one_def)
    with False k close_phase_member [OF assms(1), of now] show ?thesis by auto
  qed
qed

theorem closing_client_is_drained_witness:
  "(\<exists>c' \<in> set (clients (close_phase 5 ((server_init False [] [])\<lparr>clients :=
        [demo_client\<lparr>send_queue := [1], close_after_drain := Some 4\<rparr>]\<rparr>))).
      outbound c' = outbound demo_client @ [1] \<and> send_queue c' \<noteq> []) \<or>
   wire (stream (deadline_one 5 (flush_one (demo_client\<lparr>send_queue := [1], close_after_drain := Some 4\<rparr>)))) =
     outbound demo_client @ [1]"
  using closing_client_is_drained [of "demo_client\<lparr>send_queue := [1], close_after_drain := Some 4\<rparr>"
      "(server_init False [] [])\<lparr>clients := [demo_client\<lparr>send_queue := [1], close_after_drain := Some 4\<rparr>]\<rparr>" 4 5]
  by (simp add: demo_client_def new_client_def healthy_def EXIT_DRAIN_DEADLINE_def outbound_def)

subsection \<open>Terminal output\<close>

text \<open>Terminal output reaches everyone watching: in one pass the pty phase reads everything the
  terminal has ready, and each attached client that it does not give up on has been committed
  those bytes, cut into \<open>MSG_CONTENT\<close> packets of at most \<open>MAX_PAYLOAD\<close> bytes, in order and
  without loss; the history becomes the last \<open>HISTORY_CAP\<close> bytes of what it held and of them.\<close>

lemma terminal_output_delivered:
  assumes "read_pty s" and "length (snapshot (history_of s)) \<le> HISTORY_CAP"
    and "i < length (clients s)" and "attached (clients s ! i)"
    and "\<not> disconnected (clients (pty_phase s) ! i)"
  shows "(\<exists>ps. outbound (clients (pty_phase s) ! i) = outbound (clients s ! i) @ encode ps \<and>
      (\<forall>p \<in> set ps. mtyp p = MSG_CONTENT \<and> packet_ok p) \<and>
      concat (map payload ps) = readable (m_rx s)) \<and>
    snapshot (history_of (pty_phase s)) =
      last_n HISTORY_CAP (snapshot (history_of s) @ readable (m_rx s))"
proof -
  let ?ps = "map content (pty_pieces (m_rx s))"
  have c: "clients (pty_phase s) ! i = fold broadcast_if (pty_pieces (m_rx s)) (clients s ! i)"
    using assms(1,3) by (simp add: pty_phase_def pty_loop_fields)
  then have "outbound (clients (pty_phase s) ! i) = outbound (clients s ! i) @ encode ?ps"
    using assms(4,5) by (simp add: fold_broadcast_outbound)
  moreover have "\<forall>p \<in> set ?ps. mtyp p = MSG_CONTENT \<and> packet_ok p"
    by (auto simp: content_def packet_ok_def dest: pty_pieces_bound)
  moreover have "concat (map payload ?ps) = readable (m_rx s)"
    using concat_pty_pieces [of "m_rx s"] by (simp add: content_def comp_def)
  moreover have "snapshot (history_of (pty_phase s)) =
      last_n HISTORY_CAP (snapshot (history_of s) @ readable (m_rx s))"
    using pty_phase_history [OF assms(2)] assms(1) by simp
  ultimately show ?thesis by blast
qed

text \<open>C34: Output that the child writes between the last read of the terminal and the \<open>waitpid\<close> that
  reaps it can be lost: with one idle attached client, a pass that finds the terminal empty and then
  the child gone sends \<open>MSG_EXIT\<close>, closes the client, and makes the server return, while everything
  still to be read from the terminal has reached neither the client nor the history.\<close>

theorem late_output_is_lost:
  assumes "read_pty s" and "m_rx s = ReadErr eagain # late" and "child_exit s = None"
    and "clients s = [c]" and "\<not> disconnected c" and "close_after_drain c = None"
    and "send_queue c = []" and "tx (stream c) = [Count n]" and "12 \<le> n"
    and "rx (stream c) = []" and "buf c = []"
    and "\<not> shutdown_requested env" and "list_all refused (accept_answers env)"
    and "wait_answer env = (child_pid cfg, w)"
  shows "\<exists>s'. server_tick cfg env s = Some (Returned s') \<and> m_rx s' = late \<and>
    history_of s' = history_of s \<and>
    (\<exists>c' st. clients (to_exit cfg env s) = [c'] \<and>
       wire (stream c') = outbound c @ packet_bytes (exit_packet st))"
proof -
  let ?st = "exit_status (macros cfg) w"
  let ?p = "pty_phase s"
  let ?w = "wait_phase cfg (wait_answer env) ?p"
  let ?c1 = "c\<lparr>stream := (stream c)\<lparr>rx := []\<rparr>, buf := []\<rparr>"
  have p: "?p = s\<lparr>m_rx := late\<rparr>"
    using assms(1,2) by (simp add: pty_phase_def pty_loop.simps [of s] eagain_def)
  then have w: "?w = (emit [SetPermissions (path cfg) 392] (s\<lparr>m_rx := late\<rparr>))\<lparr>child_exit := Some ?st\<rparr>"
    using assms(3,14) by (simp add: wait_phase_def)
  let ?r = "read_phase cfg (read_at env) ?w"
  have r: "?r = ?w\<lparr>clients := [?c1]\<rparr>"
    using assms(4,10,11) unfolding w
    by (simp add: read_phase_def read_client_packets_def read_client_idle)
  let ?c2 = "exit_one (exit_at env 0) ?st ?c1"
  have e: "to_exit cfg env s = ?w\<lparr>clients := [?c2]\<rparr>"
    unfolding to_exit_def r by (simp add: exit_phase_def w)
  let ?q = "?c1\<lparr>send_queue := packet_bytes (exit_packet ?st)\<rparr>"
  have len: "length (packet_bytes (exit_packet ?st)) = 12" by (simp add: exit_packet_def)
  have "send_packet_nonblocking ?c1 (exit_packet ?st) = try_flush_client ?q"
    using assms(7) len by (simp add: send_nonblocking_cases queue_fits_def SEND_QUEUE_CAP_def)
  also have "\<dots> = (Inr (), ?q\<lparr>stream := (stream ?q)\<lparr>tx := [], wire := wire (stream ?q) @ send_queue ?q\<rparr>,
      send_queue := []\<rparr>)"
    by (rule flush_at_once [where n = n]) (use assms(8,9) len in \<open>simp_all del: length_packet_bytes\<close>)
  finally have c2: "send_queue ?c2 = []" "wire (stream ?c2) = outbound c @ packet_bytes (exit_packet ?st)"
    "disconnected ?c2 = False" "close_after_drain ?c2 = Some (exit_at env 0)"
    using assms(5-7) by (simp_all add: exit_one_def outbound_def)
  have "flush_one ?c2 = ?c2"
    using c2 by (simp add: flush_one_def try_flush_client_def)
  then have "disconnected (deadline_one (now_at env) (flush_one ?c2))"
    using c2 by (simp add: deadline_one_def)
  then have cl: "close_phase (now_at env) (to_exit cfg env s) = ?w\<lparr>clients := []\<rparr>"
    unfolding e close_phase_def by simp
  have "server_tick cfg env s = Some (finish (close_phase (now_at env) (to_exit cfg env s)))"
    using assms(12,13) by (simp add: server_tick_def to_exit_def poll_shutdown_def accept_refused)
  then have t: "server_tick cfg env s = Some (finish (?w\<lparr>clients := []\<rparr>))"
    unfolding cl .
  have "clients (to_exit cfg env s) = [?c2]" unfolding e by simp
  then show ?thesis
    using c2(2) unfolding t by (auto simp: finish_def w)
qed

theorem late_output_is_lost_witness:
  "\<exists>s'. server_tick demo_cfg (quiet_env\<lparr>wait_answer := (78, 0)\<rparr>)
      ((server_init True [ReadErr eagain, Bytes [98, 121, 101]] [])
        \<lparr>clients := [(new_client \<lparr>rx = [], tx = [Count 100], wire = []\<rparr>)\<lparr>attached := True\<rparr>]\<rparr>) =
      Some (Returned s') \<and> m_rx s' = [Bytes [98, 121, 101]]"
  using late_output_is_lost [of "(server_init True [ReadErr eagain, Bytes [98, 121, 101]] [])
        \<lparr>clients := [(new_client \<lparr>rx = [], tx = [Count 100], wire = []\<rparr>)\<lparr>attached := True\<rparr>]\<rparr>"
      "[Bytes [98, 121, 101]]" "(new_client \<lparr>rx = [], tx = [Count 100], wire = []\<rparr>)\<lparr>attached := True\<rparr>" 100
      "quiet_env\<lparr>wait_answer := (78, 0)\<rparr>" demo_cfg 0]
  by (auto simp: new_client_def quiet_env_def demo_cfg_def server_init_def)

end
