(* ===== verification/Signals.thy ===== *)
theory Signals
  imports Guarantees
begin

text \<open>
  The server with its signals, as a machine whose steps are the delivery of a
  signal and a pass of the loop, in any order (\<open>server_step\<close>, \<open>server_run\<close>). A signal that arrives in
  the middle of a pass is a \<open>Signal\<close> step behind that pass, since the pass reads the flag
  only at its start. The machine refines \<open>server_loop\<close>, so that what is proved of the loop holds of
  the process with its signals.
\<close>

subsection \<open>The server process\<close>

datatype server_event = Signal nat | Pass tick_env

record signalled_server =
  loop_state :: server
  globals :: statics
  disposed :: "nat \<Rightarrow> disposition"
  returned :: bool

inductive server_step :: "server_cfg \<Rightarrow> signalled_server \<Rightarrow> server_event \<Rightarrow> signalled_server \<Rightarrow> bool" for cfg where
  Delivered: "\<not> returned p \<Longrightarrow> deliver (disposed p) sig (globals p) = Some g \<Longrightarrow>
     server_step cfg p (Signal sig) (p\<lparr>globals := g\<rparr>)"
| Passed: "\<not> returned p \<Longrightarrow>
     server_tick cfg (env\<lparr>shutdown_requested := SHUTDOWN_REQUESTED (globals p)\<rparr>) (loop_state p) =
       Some (Continue s) \<Longrightarrow>
     server_step cfg p (Pass env)
       (p\<lparr>globals := (globals p)\<lparr>SHUTDOWN_REQUESTED := False\<rparr>, loop_state := s\<rparr>)"
| LastPass: "\<not> returned p \<Longrightarrow>
     server_tick cfg (env\<lparr>shutdown_requested := SHUTDOWN_REQUESTED (globals p)\<rparr>) (loop_state p) =
       Some (Returned s) \<Longrightarrow>
     server_step cfg p (Pass env)
       (p\<lparr>globals := (globals p)\<lparr>SHUTDOWN_REQUESTED := False\<rparr>, loop_state := s, returned := True\<rparr>)"

inductive server_run :: "server_cfg \<Rightarrow> signalled_server \<Rightarrow> server_event list \<Rightarrow> signalled_server \<Rightarrow> bool" for cfg where
  Start: "server_run cfg p [] p"
| Step: "server_step cfg p e q \<Longrightarrow> server_run cfg q es r \<Longrightarrow> server_run cfg p (e # es) r"

inductive_cases signal_stepE [elim!]: "server_step cfg p (Signal sig) q"
inductive_cases pass_stepE [elim!]: "server_step cfg p (Pass env) q"
inductive_cases run_NilE [elim!]: "server_run cfg p [] q"
inductive_cases run_ConsE: "server_run cfg p (e # es) q"
inductive_simps run_Nil_iff [simp]: "server_run cfg p [] q"
inductive_simps run_Cons_iff: "server_run cfg p (e # es) q"
inductive_simps signal_step_iff: "server_step cfg p (Signal sig) q"
inductive_simps pass_step_iff: "server_step cfg p (Pass env) q"

lemmas server_run_intros [intro] = server_step.intros server_run.intros

lemma server_run_append:
  "server_run cfg p (es @ fs) r \<longleftrightarrow> (\<exists>q. server_run cfg p es q \<and> server_run cfg q fs r)"
  by (induction es arbitrary: p) (auto simp: run_Cons_iff)

lemma server_run_disposed: "server_run cfg p es q \<Longrightarrow> disposed q = disposed p"
  by (induction rule: server_run.induct) (auto elim: server_step.cases)

text \<open>The passes of a run of events, each with the flag it finds.\<close>

fun flagged :: "(nat \<Rightarrow> disposition) \<Rightarrow> statics \<Rightarrow> server_event list \<Rightarrow> tick_env list" where
  "flagged d g [] = []"
| "flagged d g (Signal sig # es) =
     (case deliver d sig g of None \<Rightarrow> [] | Some g' \<Rightarrow> flagged d g' es)"
| "flagged d g (Pass env # es) =
     env\<lparr>shutdown_requested := SHUTDOWN_REQUESTED g\<rparr> # flagged d (g\<lparr>SHUTDOWN_REQUESTED := False\<rparr>) es"

lemma no_step_after_return: "returned p \<Longrightarrow> \<not> server_step cfg p e q"
  by (auto elim: server_step.cases)

lemma no_run_after_return: "returned p \<Longrightarrow> server_run cfg p es q \<Longrightarrow> es = [] \<and> q = p"
  by (cases es) (auto simp: run_Cons_iff no_step_after_return)

lemma run_is_loop:
  "server_run cfg p es q \<Longrightarrow> \<not> returned p \<Longrightarrow>
     server_loop cfg (flagged (disposed p) (globals p) es) (loop_state p) =
       (if returned q then Done (loop_state q) else Running (loop_state q))"
proof (induction rule: server_run.induct)
  case (Step p e q es r)
  note ih = Step.IH and run = Step.hyps(2)
  from Step.hyps(1) show ?case
  proof cases
    case (Delivered sig g)
    with ih Step.prems show ?thesis by simp
  next
    case (Passed env s)
    with ih Step.prems show ?thesis by simp
  next
    case (LastPass env s)
    with no_run_after_return [OF _ run] show ?thesis by simp
  qed
qed simp

definition survives :: "(nat \<Rightarrow> disposition) \<Rightarrow> server_event \<Rightarrow> bool" where
  "survives d e = (case e of Signal sig \<Rightarrow> d sig \<noteq> Default | Pass env \<Rightarrow> True)"

lemma survives_deliver: "survives d (Signal sig) \<Longrightarrow> \<exists>g'. deliver d sig g = Some g'"
  by (cases "d sig") (auto simp: survives_def deliver_def)

lemma loop_is_run:
  assumes "list_all (survives (disposed p)) es" and "\<not> returned p"
    and "server_loop cfg (flagged (disposed p) (globals p) es) (loop_state p) = r"
  shows "case r of
      Running s \<Rightarrow> \<exists>q. server_run cfg p es q \<and> \<not> returned q \<and> loop_state q = s
    | Done s \<Rightarrow> \<exists>es' q. prefix es' es \<and> server_run cfg p es' q \<and> returned q \<and> loop_state q = s
    | Stuck \<Rightarrow> True"
  using assms
proof (induction es arbitrary: p)
  case (Cons e es)
  have step: "case r of
      Running s \<Rightarrow> \<exists>q. server_run cfg p (e # es) q \<and> \<not> returned q \<and> loop_state q = s
    | Done s \<Rightarrow> \<exists>es' q. prefix es' (e # es) \<and> server_run cfg p es' q \<and> returned q \<and> loop_state q = s
    | Stuck \<Rightarrow> True"
    if "server_step cfg p e q" "\<not> returned q" "disposed q = disposed p"
      "server_loop cfg (flagged (disposed q) (globals q) es) (loop_state q) = r" for q
  proof -
    have "case r of
      Running s \<Rightarrow> \<exists>r. server_run cfg q es r \<and> \<not> returned r \<and> loop_state r = s
    | Done s \<Rightarrow> \<exists>es' r. prefix es' es \<and> server_run cfg q es' r \<and> returned r \<and> loop_state r = s
    | Stuck \<Rightarrow> True"
      using Cons.prems(1) that(2-4) by (intro Cons.IH) simp_all
    with that(1) show ?thesis
    proof (cases r)
      case (Done s)
      with \<open>case r of Running s \<Rightarrow> _ s | Done s \<Rightarrow> _ s | Stuck \<Rightarrow> True\<close> obtain es' r' where
        "prefix es' es" "server_run cfg q es' r'" "returned r'" "loop_state r' = s" by auto
      with that(1) Done show ?thesis by (auto intro!: exI [of _ "e # es'"])
    qed auto
  qed
  show ?case
  proof (cases e)
    case (Signal sig)
    with Cons.prems(1) obtain g where g: "deliver (disposed p) sig (globals p) = Some g"
      using survives_deliver [of "disposed p" sig "globals p"] by auto
    with Signal Cons.prems(2,3) show ?thesis
      by (intro step [of "p\<lparr>globals := g\<rparr>"]) auto
  next
    case (Pass env)
    let ?t = "server_tick cfg (env\<lparr>shutdown_requested := SHUTDOWN_REQUESTED (globals p)\<rparr>) (loop_state p)"
    let ?g = "(globals p)\<lparr>SHUTDOWN_REQUESTED := False\<rparr>"
    show ?thesis
    proof (cases ?t)
      case None
      with Pass Cons.prems(3) show ?thesis by auto
    next
      case (Some x)
      show ?thesis
      proof (cases x)
        case (Continue s1)
        with Some Pass Cons.prems show ?thesis
          by (intro step [of "p\<lparr>globals := ?g, loop_state := s1\<rparr>"]) auto
      next
        case (Returned s1)
        with Some Cons.prems(2) have
          "server_run cfg p [Pass env] (p\<lparr>globals := ?g, loop_state := s1, returned := True\<rparr>)"
          by (auto intro: server_step.LastPass)
        with Returned Some Pass Cons.prems(3) show ?thesis
          by (auto intro!: exI [of _ "[Pass env]"] exI [of _ "p\<lparr>globals := ?g, loop_state := s1, returned := True\<rparr>"])
      qed
    qed
  qed
qed auto

lemma pass_step_tick:
  "server_step cfg p (Pass env) q \<Longrightarrow>
     \<exists>x. server_tick cfg (env\<lparr>shutdown_requested := SHUTDOWN_REQUESTED (globals p)\<rparr>) (loop_state p) = Some x \<and>
       loop_state q = after x"
  by (erule pass_stepE; force)

lemma signals_keep_flag:
  "server_run cfg p (map Signal sigs) q \<Longrightarrow>
     loop_state q = loop_state p \<and> disposed q = disposed p \<and>
     (SHUTDOWN_REQUESTED (globals p) \<longrightarrow> SHUTDOWN_REQUESTED (globals q))"
proof (induction sigs arbitrary: p)
  case (Cons sig sigs)
  then obtain g where g: "deliver (disposed p) sig (globals p) = Some g"
    and run: "server_run cfg (p\<lparr>globals := g\<rparr>) (map Signal sigs) q"
    by (auto simp: run_Cons_iff signal_step_iff)
  have "SHUTDOWN_REQUESTED (globals p) \<longrightarrow> SHUTDOWN_REQUESTED g"
    using g by (cases "disposed p sig") (auto simp: deliver_def)
  with Cons.IH [OF run] show ?case by simp
qed simp

text \<open>Once the exit is recorded, no pass sends \<open>SIGTERM\<close> again.\<close>

lemma no_more_sigterm:
  assumes "server_tick cfg env s = Some r" "child_exit s = Some st \<and> filter is_sigterm (effects s) = ks"
  shows "child_exit (after r) = Some st \<and> filter is_sigterm (effects (after r)) = ks"
  using assms(1)
proof (rule trm.P_tick)
  fix s1
  assume "child_exit s1 = child_exit (poll_shutdown cfg (shutdown_requested env) s)"
    "filter is_sigterm (effects s1) = filter is_sigterm (effects (poll_shutdown cfg (shutdown_requested env) s))"
    "child_exit (after r) = child_exit (wait_phase cfg (wait_answer env) s1)"
    "filter is_sigterm (effects (after r)) = filter is_sigterm (effects (wait_phase cfg (wait_answer env) s1))"
  with assms(2) show ?thesis by (simp add: poll_shutdown_def wait_phase_def)
qed

interpretation terminated: pass_invariant
  "\<lambda>s. child_exit s = Some st \<and> filter is_sigterm (effects s) = ks" cfg "\<lambda>env. True" for st ks cfg
  by unfold_locales (rule no_more_sigterm)

lemma requested_pass:
  assumes "server_tick cfg env s = Some r" "shutdown_requested env" "child_exit s = None"
  shows "child_exit (after r) = Some 143 \<and>
    filter is_sigterm (effects (after r)) = filter is_sigterm (effects s) @ [Kill (- child_pid cfg) SIGTERM]"
  using assms(1)
proof (rule trm.P_tick)
  fix s1
  assume "child_exit s1 = child_exit (poll_shutdown cfg (shutdown_requested env) s)"
    "filter is_sigterm (effects s1) = filter is_sigterm (effects (poll_shutdown cfg (shutdown_requested env) s))"
    "child_exit (after r) = child_exit (wait_phase cfg (wait_answer env) s1)"
    "filter is_sigterm (effects (after r)) = filter is_sigterm (effects (wait_phase cfg (wait_answer env) s1))"
  with assms(2,3) show ?thesis by (simp add: poll_shutdown_def wait_phase_def SIGTERM_def)
qed

lemma run_keeps_terminated:
  assumes "server_run cfg p es q" "child_exit (loop_state p) = Some st"
  shows "child_exit (loop_state q) = Some st \<and>
    filter is_sigterm (effects (loop_state q)) = filter is_sigterm (effects (loop_state p))"
proof (cases "returned p")
  case True
  with no_run_after_return [OF _ assms(1)] assms(2) show ?thesis by simp
next
  case False
  from run_is_loop [OF assms(1) this] assms(2)
    terminated.inv_running [of cfg _ "loop_state p" "loop_state q" st]
    terminated.inv_done [of cfg _ "loop_state p" "loop_state q" st]
  show ?thesis by (auto simp: list_all_iff split: if_splits)
qed

subsection \<open>Properties\<close>

definition expected_signal :: "server_event \<Rightarrow> bool" where
  "expected_signal e =
     (case e of Signal sig \<Rightarrow> sig \<in> {SIGHUP, SIGINT, SIGPIPE, SIGTERM} | Pass env \<Rightarrow> True)"

lemma expected_survives: "expected_signal e \<Longrightarrow> survives (server_signals d) e"
  by (auto simp: expected_signal_def survives_def server_signals_def signal_numbers split: server_event.splits)

text \<open>The specification, in terms of the events alone: a pass finds a request exactly if a termination signal has
  come since the last pass.\<close>

fun requested :: "bool \<Rightarrow> server_event list \<Rightarrow> tick_env list" where
  "requested b [] = []"
| "requested b (Signal sig # es) = requested (b \<or> sig \<in> {SIGTERM, SIGINT}) es"
| "requested b (Pass env # es) = env\<lparr>shutdown_requested := b\<rparr> # requested False es"

lemma requested_append: "\<exists>c. requested b (es @ fs) = requested b es @ requested c fs"
  by (induction b es rule: requested.induct) auto

text \<open>The handlers and dispositions implement it.\<close>

lemma flagged_requested:
  "list_all expected_signal es \<Longrightarrow> flagged (server_signals d) g es = requested (SHUTDOWN_REQUESTED g) es"
proof (induction es arbitrary: g)
  case (Cons e es)
  show ?case
  proof (cases e)
    case (Signal sig)
    with Cons.prems obtain h where "deliver (server_signals d) sig g = Some h"
      "SHUTDOWN_REQUESTED h \<longleftrightarrow> SHUTDOWN_REQUESTED g \<or> sig \<in> {SIGTERM, SIGINT}"
      by (auto simp: expected_signal_def deliver_def server_signals_def handle_shutdown_signal_def signal_numbers)
    with Signal Cons show ?thesis by simp
  next
    case (Pass env)
    with Cons show ?thesis by simp
  qed
qed simp

text \<open>C27: The server process with its handlers, dispositions and static flag refines \<open>server_loop\<close>. Hang-ups, broken
  pipes and termination requests may arrive in any number and order between and during the passes: the process
  is in a state precisely when the loop is, run on the same passes with a request in those, and only those,
  before which a \<open>SIGTERM\<close> or \<open>SIGINT\<close> has come since the pass before; it returns precisely when that
  loop does, in the same state; and none of these signals kills it.\<close>

theorem signalled_server_refines_loop:
  assumes "disposed p = server_signals d" and "\<not> returned p" and "list_all expected_signal es"
    and "\<not> SHUTDOWN_REQUESTED (globals p)"
  shows "(\<forall>s. server_loop cfg (requested False es) (loop_state p) = Running s \<longleftrightarrow>
      (\<exists>q. server_run cfg p es q \<and> \<not> returned q \<and> loop_state q = s)) \<and>
    (\<forall>s. server_loop cfg (requested False es) (loop_state p) = Done s \<longleftrightarrow>
      (\<exists>es' q. prefix es' es \<and> server_run cfg p es' q \<and> returned q \<and> loop_state q = s)) \<and>
    (\<forall>q sig. server_run cfg p es q \<and> \<not> returned q \<and> sig \<in> {SIGHUP, SIGINT, SIGPIPE, SIGTERM} \<longrightarrow>
      (\<exists>q'. server_step cfg q (Signal sig) q' \<and> loop_state q' = loop_state q))"
proof -
  have f: "flagged (server_signals d) (globals p) es' = requested False es'" if "prefix es' es" for es'
    using flagged_requested [of es' d "globals p"] that assms(3,4) by (auto simp: prefix_def)
  have "list_all (survives (disposed p)) es"
    using assms(1,3) expected_survives by (auto simp: list_all_iff)
  note l = loop_is_run [OF this assms(2) refl, of cfg, unfolded assms(1) f [OF prefix_order.refl]]
  have u: "server_loop cfg (requested False es') (loop_state p) =
      (if returned q then Done (loop_state q) else Running (loop_state q))"
    if "server_run cfg p es' q" "prefix es' es" for es' q
    using run_is_loop [OF that(1) assms(2)] f [OF that(2)] assms(1) by simp
  have d: "server_loop cfg (requested False es) (loop_state p) = Done (loop_state q)"
    if q: "server_run cfg p es' q" "prefix es' es" "returned q" for es' q
  proof -
    obtain fs where "es = es' @ fs" using q(2) by (auto simp: prefix_def)
    then show ?thesis using u [OF q(1,2)] q(3) requested_append [of False es' fs] by (auto simp: server_loop_append)
  qed
  have k: "\<exists>q'. server_step cfg q (Signal sig) q' \<and> loop_state q' = loop_state q"
    if q: "server_run cfg p es q" "\<not> returned q" "sig \<in> {SIGHUP, SIGINT, SIGPIPE, SIGTERM}" for q sig
  proof -
    have "disposed q = server_signals d" using server_run_disposed [OF q(1)] assms(1) by simp
    then obtain g where "deliver (disposed q) sig (globals q) = Some g"
      using q(3) by (auto simp: deliver_def server_signals_def signal_numbers)
    with q(2) show ?thesis by (auto intro: exI [of _ "q\<lparr>globals := g\<rparr>"])
  qed
  show ?thesis
  proof (intro conjI allI iffI)
    fix s
    assume "server_loop cfg (requested False es) (loop_state p) = Running s"
    with l show "\<exists>q. server_run cfg p es q \<and> \<not> returned q \<and> loop_state q = s" by simp
  next
    fix s
    assume "server_loop cfg (requested False es) (loop_state p) = Done s"
    with l show "\<exists>es' q. prefix es' es \<and> server_run cfg p es' q \<and> returned q \<and> loop_state q = s" by simp
  qed (use u d k in auto)
qed

definition demo_process :: signalled_server where
  "demo_process =
     \<lparr>loop_state = server_init False [] [], globals = \<lparr>WINCH_PENDING = False, SHUTDOWN_REQUESTED = False\<rparr>,
      disposed = server_signals (\<lambda>n. Default), returned = False\<rparr>"

definition demo_stopped :: server where
  "demo_stopped = emit
     [ServerLog ''shutdown'' ''signal-requested SIGTERM/SIGINT'', Kill (- 78) 15,
      SetPermissions ''p'' 392, ServerLog ''shutdown'' ''clean child_exit=143 clients=0'']
     ((server_init False [] [])\<lparr>child_exit := Some 143\<rparr>)"

lemma demo_deliver:
  "deliver (server_signals (\<lambda>n. Default)) SIGTERM \<lparr>WINCH_PENDING = False, SHUTDOWN_REQUESTED = False\<rparr> =
     Some \<lparr>WINCH_PENDING = False, SHUTDOWN_REQUESTED = True\<rparr>"
  by (simp add: deliver_def server_signals_def handle_shutdown_signal_def signal_numbers)

lemma demo_requested:
  "server_loop demo_cfg (requested False [Signal SIGTERM, Pass quiet_env]) (loop_state demo_process) =
     Done demo_stopped"
  using idle_tick by (simp add: demo_process_def demo_stopped_def)

theorem signalled_server_refines_loop_witness:
  "\<exists>es' q. prefix es' [Signal SIGTERM, Pass quiet_env] \<and> server_run demo_cfg demo_process es' q \<and>
     returned q \<and> loop_state q = demo_stopped"
proof -
  have "disposed demo_process = server_signals (\<lambda>n. Default)" "\<not> returned demo_process"
    "\<not> SHUTDOWN_REQUESTED (globals demo_process)"
    by (simp_all add: demo_process_def)
  moreover have "list_all expected_signal [Signal SIGTERM, Pass quiet_env]"
    by (simp add: expected_signal_def)
  ultimately show ?thesis
    using signalled_server_refines_loop [where es = "[Signal SIGTERM, Pass quiet_env]" and cfg = demo_cfg]
      demo_requested by blast
qed

text \<open>C8: A termination request is never lost and is carried out once: when \<open>SIGTERM\<close> or \<open>SIGINT\<close> reaches
  a server at any point of its life, in the midst of any other signals, the next pass records
  the exit (143, unless the child had already exited) and sends \<open>SIGTERM\<close> to the child's process
  group, and however many requests follow, neither happens again.\<close>

theorem termination_request_honoured:
  assumes "server_run cfg p es q"
    and "disposed p = server_signals d" and "loop_state p = server_init rp prx ptx" and "\<not> returned p"
    and "server_run cfg q (Signal sig # map Signal sigs @ Pass env # fs) r" and "sig = SIGTERM \<or> sig = SIGINT"
  shows "child_exit (loop_state r) =
      (case child_exit (loop_state q) of None \<Rightarrow> Some 143 | Some st \<Rightarrow> Some st) \<and>
    filter is_sigterm (effects (loop_state r)) =
      (if child_exit (loop_state q) = None then [Kill (- child_pid cfg) SIGTERM]
       else filter is_sigterm (effects (loop_state q)))"
proof (cases "child_exit (loop_state q)")
  case (Some st)
  with run_keeps_terminated [OF assms(5) Some] show ?thesis by simp
next
  case None
  have d: "disposed q = server_signals d" using server_run_disposed [OF assms(1)] assms(2) by simp
  have q: "\<not> returned q" using assms(5) no_run_after_return by blast
  from run_is_loop [OF assms(1,4)] q assms(3) have
    "server_loop cfg (flagged (disposed p) (globals p) es) (server_init rp prx ptx) = Running (loop_state q)"
    by simp
  then have "terminated_once cfg (loop_state q)"
    by (rule terminating.inv_running) (simp_all add: terminated_once_def server_init_def list_all_iff)
  with None have none: "filter is_sigterm (effects (loop_state q)) = []" by (simp add: terminated_once_def)
  let ?q = "q\<lparr>globals := handle_shutdown_signal (globals q)\<rparr>"
  have "deliver (disposed q) sig (globals q) = Some (handle_shutdown_signal (globals q))"
    using assms(6) d by (auto simp: deliver_def server_signals_def signal_numbers)
  with assms(5) have "server_run cfg ?q (map Signal sigs @ Pass env # fs) r"
    by (auto simp: run_Cons_iff)
  then obtain u where u: "server_run cfg ?q (map Signal sigs) u" "server_run cfg u (Pass env # fs) r"
    by (auto simp: server_run_append)
  have l: "loop_state u = loop_state q" "SHUTDOWN_REQUESTED (globals u)"
    using signals_keep_flag [OF u(1)] by (simp_all add: handle_shutdown_signal_def)
  from u(2) obtain v where v: "server_step cfg u (Pass env) v" "server_run cfg v fs r"
    by (auto simp: run_Cons_iff)
  from v(1) obtain x where x: "server_tick cfg (env\<lparr>shutdown_requested := True\<rparr>) (loop_state q) = Some x"
    "loop_state v = after x" using l pass_step_tick by fastforce
  have "child_exit (loop_state v) = Some 143"
    "filter is_sigterm (effects (loop_state v)) = [Kill (- child_pid cfg) SIGTERM]"
    using requested_pass [OF x(1) _ None] none x(2) by simp_all
  with run_keeps_terminated [OF v(2)] None show ?thesis by simp
qed

lemma demo_request:
  "server_run demo_cfg demo_process (Signal SIGTERM # map Signal [] @ Pass quiet_env # [])
     (demo_process\<lparr>loop_state := demo_stopped, returned := True\<rparr>)"
  using idle_tick demo_deliver
  by (auto simp: run_Cons_iff signal_step_iff pass_step_iff demo_process_def demo_stopped_def)

theorem termination_request_honoured_witness:
  "child_exit demo_stopped = Some 143 \<and> filter is_sigterm (effects demo_stopped) = [Kill (- 78) 15]"
  using termination_request_honoured [OF server_run.Start _ _ _ demo_request, of "\<lambda>n. Default" False "[]" "[]"]
  by (simp add: demo_process_def server_init_def demo_cfg_def SIGTERM_def)

text \<open>The session's program starts with \<open>SIGPIPE\<close> and \<open>SIGHUP\<close> ignored, whatever the user's shell had
  set: the server sets its dispositions before \<open>forkpty\<close>, \<open>fork\<close> copies them and \<open>execvp\<close> keeps an
  ignored signal ignored; only the two caught ones are back to their defaults.\<close>

lemma program_ignores_hangup:
  shows "program_signals d SIGHUP = Ignored \<and> program_signals d SIGPIPE = Ignored \<and>
    program_signals d SIGTERM = Default \<and> program_signals d SIGINT = Default \<and>
    deliver (program_signals d) SIGHUP g = Some g"
  by (simp add: program_signals_def exec_signals_def server_signals_def signal_numbers deliver_def)

end
