(* ===== verification/Keyboard.thy ===== *)
theory Keyboard
  imports Passes
begin

text \<open>
  What clients type: the way from the bytes a client puts on its connection to the bytes the pty
  master accepts, through \<open>read_client_packets\<close>. \<open>typed\<close> is the specification, a function of the
  packets alone; the packet loop refines it.
\<close>

subsection \<open>The specification\<close>

text \<open>The payloads a sequence of packets means for the terminal, under the flags in force.\<close>

fun typed :: "u32 \<Rightarrow> packet list \<Rightarrow> bytes list" where
  "typed f [] = []"
| "typed f (p # ps) =
     (if mtyp p = MSG_CONTENT \<or> mtyp p = MSG_SEND_KEYS
      then (if f AND CLIENT_READONLY = 0 then payload p # typed f ps else typed f ps)
      else if mtyp p = MSG_ATTACH
      then typed (case read_u32 (payload p) of None \<Rightarrow> 0 | Some g \<Rightarrow> g) ps
      else typed f ps)"

lemma typed_readonly:
  "f AND CLIENT_READONLY \<noteq> 0 \<Longrightarrow>
   (\<forall>p \<in> set ps. mtyp p = MSG_ATTACH \<longrightarrow> (\<exists>g. read_u32 (payload p) = Some g \<and> g AND CLIENT_READONLY \<noteq> 0)) \<Longrightarrow>
     typed f ps = []"
  by (induction f ps rule: typed.induct) auto

lemma typed_keys:
  "f AND CLIENT_READONLY = 0 \<Longrightarrow> \<forall>p \<in> set ps. mtyp p = MSG_CONTENT \<or> mtyp p = MSG_SEND_KEYS \<Longrightarrow>
     typed f ps = map payload ps"
  by (induction f ps rule: typed.induct) auto

subsection \<open>The packet loop keeps it\<close>

lemma send_history_flags_only [simp]:
  "flags (send_history (c\<lparr>attached := b, flags := f\<rparr>) h e) = f"
  by simp

lemma msg_distinct [simp]:
  "MSG_ATTACH \<noteq> MSG_CONTENT" "MSG_CONTENT \<noteq> MSG_ATTACH" "MSG_ATTACH \<noteq> MSG_SEND_KEYS" "MSG_DUMP \<noteq> MSG_ATTACH"
  by (simp_all add: wire_consts)

lemma handle_packet_typed:
  "flags (fst (handle_packet inst pid p cs)) =
     (if mtyp p = MSG_ATTACH then (case read_u32 (payload p) of None \<Rightarrow> 0 | Some g \<Rightarrow> g) else flags (fst cs))"
  "m_in (snd (handle_packet inst pid p cs)) = m_in (fold write_master (typed (flags (fst cs)) [p]) (snd cs))"
  "m_tx (snd (handle_packet inst pid p cs)) = m_tx (fold write_master (typed (flags (fst cs)) [p]) (snd cs))"
  by (auto simp: handle_packet_def Let_def)

text \<open>Writing to the master looks at nothing else of the server.\<close>

lemma write_master_local:
  "m_in s = m_in s' \<Longrightarrow> m_tx s = m_tx s' \<Longrightarrow>
     m_in (write_master bs s) = m_in (write_master bs s') \<and> m_tx (write_master bs s) = m_tx (write_master bs s')"
  by (simp add: write_master_def split: option.splits)

lemma fold_write_master_local:
  "m_in s = m_in s' \<Longrightarrow> m_tx s = m_tx s' \<Longrightarrow>
     m_in (fold write_master ds s) = m_in (fold write_master ds s') \<and>
     m_tx (fold write_master ds s) = m_tx (fold write_master ds s')"
proof (induction ds arbitrary: s s')
  case (Cons d ds)
  have "m_in (write_master d s) = m_in (write_master d s')" "m_tx (write_master d s) = m_tx (write_master d s')"
    using write_master_local [OF Cons.prems] by blast+
  from Cons.IH [OF this] show ?case by simp
qed simp

lemma packet_loop_typed:
  "m_in (snd (packet_loop inst pid cs)) =
     m_in (fold write_master (typed (flags (fst cs)) (fst (pop_all (buf (fst cs))))) (snd cs)) \<and>
   m_tx (snd (packet_loop inst pid cs)) =
     m_tx (fold write_master (typed (flags (fst cs)) (fst (pop_all (buf (fst cs))))) (snd cs)) \<and>
   buf (fst (packet_loop inst pid cs)) = snd (pop_all (buf (fst cs)))"
proof (induction inst pid cs rule: packet_loop.induct)
  case (1 inst pid cs)
  show ?case
  proof (cases "pop_packet (buf (fst cs))")
    case (Pair q b)
    show ?thesis
    proof (cases q)
      case None
      with Pair show ?thesis
        by (simp add: packet_loop.simps [of inst pid cs] pop_all.simps [of "buf (fst cs)"])
    next
      case (Some p)
      let ?cs = "((fst cs)\<lparr>buf := b\<rparr>, snd cs)"
      let ?h = "handle_packet inst pid p ?cs"
      have pop: "pop_all (buf (fst cs)) = (p # fst (pop_all b), snd (pop_all b))"
        using Pair Some by (simp add: pop_all.simps [of "buf (fst cs)"] split: prod.splits)
      let ?rest = "typed (flags (fst ?h)) (fst (pop_all b))"
      have t: "typed (flags (fst cs)) (p # fst (pop_all b)) = typed (flags (fst cs)) [p] @ ?rest"
        by (simp add: handle_packet_typed)
      have "packet_loop inst pid cs = packet_loop inst pid ?h"
        using Pair Some by (simp add: packet_loop.simps [of inst pid cs])
      with "1.IH" [OF Pair [symmetric] Some]
        fold_write_master_local [of "snd ?h" "fold write_master (typed (flags (fst cs)) [p]) (snd cs)" ?rest]
      show ?thesis
        unfolding pop by (simp add: t handle_packet_typed del: typed.simps)
    qed
  qed
qed

subsection \<open>Reading a connection\<close>

lemma read_loop_reads: "read_loop rs b = (e, b', rs') \<Longrightarrow> b' = b @ readable rs"
proof (induction rs b arbitrary: e b' rs' rule: read_loop.induct)
  case (1 rs b)
  show ?case
  proof (cases rs)
    case Nil
    with "1.prems" show ?thesis by (simp add: read_loop.simps eagain_def)
  next
    case (Cons a as)
    then have call: "sys_read 8192 rs = Some (next_read 8192 rs)" by (simp add: sys_read_def)
    show ?thesis
    proof (cases "next_read 8192 rs")
      case (Pair r rs1)
      note c = call [unfolded Pair]
      show ?thesis
      proof (cases r)
        case (Inl x)
        with "1.IH"(1) [OF Pair [symmetric] Inl] "1.prems" Pair c sys_read_error [of 8192 rs x rs1]
        show ?thesis by (auto simp: read_loop.simps [of rs b] split: if_splits)
      next
        case (Inr bs)
        with "1.IH"(2) [OF Pair [symmetric] Inr] "1.prems" Pair c
          sys_read_data [of 8192 rs bs rs1] sys_read_eof [of 8192 rs rs1]
        show ?thesis by (auto simp: read_loop.simps [of rs b] split: if_splits)
      qed
    qed
  qed
qed

definition read_fails :: "read_answer list \<Rightarrow> bool" where
  "read_fails rs \<longleftrightarrow> fst (read_loop rs []) = Failed"

lemma read_loop_end: "fst (read_loop rs b) = fst (read_loop rs b')"
proof (induction rs b arbitrary: b' rule: read_loop.induct)
  case (1 rs b)
  show ?case
  proof (cases "next_read 8192 rs")
    case (Pair r rs1)
    show ?thesis
    proof (cases r)
      case (Inl x)
      with "1.IH"(1) [OF Pair [symmetric] Inl, of b'] Pair show ?thesis
        by (simp add: read_loop.simps [of rs b] read_loop.simps [of rs b'])
    next
      case (Inr bs)
      with "1.IH"(2) [OF Pair [symmetric] Inr, of "b' @ bs"] Pair show ?thesis
        by (simp add: read_loop.simps [of rs b] read_loop.simps [of rs b'])
    qed
  qed
qed

lemma read_once: "length b \<le> 8192 \<Longrightarrow> \<not> read_fails [Bytes b]"
  by (simp add: read_fails_def read_loop.simps [of "[Bytes b]"] read_loop.simps [of "[]"] eagain_def)

lemma read_client_typed:
  assumes "\<not> read_fails (rx (stream c))"
  shows "m_in (snd (read_client inst pid (c, s))) =
      m_in (fold write_master (typed (flags c) (fst (pop_all (buf c @ readable (rx (stream c)))))) s) \<and>
    buf (fst (read_client inst pid (c, s))) = snd (pop_all (buf c @ readable (rx (stream c))))"
proof (cases "read_loop (rx (stream c)) (buf c)")
  case (fields e b rs)
  have "e \<noteq> Failed"
    using assms fields read_loop_end [of "rx (stream c)" "buf c" "[]"] by (simp add: read_fails_def)
  moreover have "b = buf c @ readable (rx (stream c))" using fields by (rule read_loop_reads)
  ultimately show ?thesis
    using packet_loop_typed [of inst pid "(c\<lparr>stream := (stream c)\<lparr>rx := rs\<rparr>, buf := b\<rparr>, s)"]
    by (simp add: read_client_def fields Let_def)
qed

lemma read_client_failed:
  "read_fails (rx (stream c)) \<Longrightarrow> snd (read_client inst pid (c, s)) = s"
  using read_loop_end [of "rx (stream c)" "buf c" "[]"]
  by (cases "read_loop (rx (stream c)) (buf c)") (simp add: read_client_def read_fails_def Let_def)

subsection \<open>What the master takes\<close>

lemma write_master_prefix: "\<exists>acc. prefix acc bs \<and> m_in (write_master bs s) = m_in s @ acc"
  by (auto simp: write_master_def fd_write_all_def split: option.splits dest: write_loop_prefix)

lemma fold_write_master_takes:
  "list_all takes (m_tx s) \<Longrightarrow> length (concat ds) \<le> length (m_tx s) \<Longrightarrow>
     m_in (fold write_master ds s) = m_in s @ concat ds"
proof (induction ds arbitrary: s)
  case (Cons d ds)
  then obtain ws where w: "write_loop Nonblocking (IoError WriteZero ''short write'') d (m_tx s) = Some (Inr (), d, ws)"
    "list_all takes ws" "length (m_tx s) \<le> length ws + length d"
    using write_loop_takes [of "m_tx s" d Nonblocking] by fastforce
  with Cons show ?case by (simp add: write_master_def fd_write_all_def)
qed simp

lemma read_client_packets_in:
  "m_in (read_client_packets inst pid i s) = m_in (snd (read_client inst pid (clients s ! i, s)))"
  "i < length (clients s) \<Longrightarrow>
     clients (read_client_packets inst pid i s) ! i = fst (read_client inst pid (clients s ! i, s))"
  by (simp_all add: read_client_packets_def Let_def)

lemma pop_all_encode: "list_all packet_ok ps \<Longrightarrow> pop_all (encode ps) = (ps, [])"
  using pk.drain_stream [of ps "[]"] pk.drain_idle [OF pk.dec_Nil]
  by (simp add: encode_def pk.stream_of_def)

subsection \<open>Properties\<close>

text \<open>C18: What is typed reaches the terminal: when a client's buffered and readable bytes are the
  encoding of packets \<open>ps\<close>, cut and interrupted in any way, and the pty master accepts some bytes
  at every call, reading that client appends to the terminal's input exactly the payloads of its
  \<open>MSG_CONTENT\<close> and \<open>MSG_SEND_KEYS\<close> packets, in order, leaving out those sent while the read-only flag
  of its last \<open>MSG_ATTACH\<close> was set; nothing stays behind in its buffer, and no other client changes.\<close>

theorem typed_input_reaches_terminal:
  assumes "i < length (clients s)" and "c = clients s ! i"
    and "buf c @ readable (rx (stream c)) = encode ps" and "list_all packet_ok ps"
    and "\<not> read_fails (rx (stream c))"
    and "list_all takes (m_tx s)" and "length (concat (typed (flags c) ps)) \<le> length (m_tx s)"
  shows "m_in (read_client_packets inst pid i s) = m_in s @ concat (typed (flags c) ps) \<and>
    buf (clients (read_client_packets inst pid i s) ! i) = [] \<and>
    (\<forall>j. j \<noteq> i \<longrightarrow> clients (read_client_packets inst pid i s) ! j = clients s ! j)"
proof -
  have "m_in (snd (read_client inst pid (c, s))) = m_in (fold write_master (typed (flags c) ps) s) \<and>
      buf (fst (read_client inst pid (c, s))) = []"
    using read_client_typed [OF assms(5), of inst pid s] assms(3) pop_all_encode [OF assms(4)] by simp
  then show ?thesis
    using assms(1,2) fold_write_master_takes [OF assms(6,7)]
    by (simp add: read_client_packets_def Let_def)
qed

definition typing_client :: "u32 \<Rightarrow> bytes \<Rightarrow> client" where
  "typing_client f bs =
     (new_client \<lparr>rx = [Bytes bs, ReadErr eagain], tx = [], wire = []\<rparr>)\<lparr>flags := f\<rparr>"

lemma typing_bytes: "encode [\<lparr>mtyp = MSG_CONTENT, payload = [120, 121]\<rparr>] = [0, 0, 0, 0, 2, 0, 0, 0, 120, 121]"
  by (simp add: packet_bytes_def u32_to_ne_bytes_def le_bytes_numeral MSG_CONTENT_def)

lemma typing_pops: "pop_all [0, 0, 0, 0, 2, 0, 0, 0, 120, 121] = ([\<lparr>mtyp = MSG_CONTENT, payload = [120, 121]\<rparr>], [])"
  unfolding typing_bytes [symmetric] by (rule pop_all_encode) (simp add: packet_ok_def MAX_PAYLOAD_def)

lemma typing_reads: "\<not> read_fails [Bytes [0, 0, 0, 0, 2, 0, 0, 0, 120, 121], ReadErr eagain]"
  unfolding read_fails_def
  by (subst read_loop.simps, simp) (subst read_loop.simps, simp add: eagain_def)

theorem typed_input_reaches_terminal_witness:
  "m_in (read_client_packets 0 1 0 ((server_init True [] [Count 1, Count 9])
      \<lparr>clients := [typing_client 0 [0, 0, 0, 0, 2, 0, 0, 0, 120, 121]]\<rparr>)) = [120, 121]"
  using typed_input_reaches_terminal [of 0 "(server_init True [] [Count 1, Count 9])
      \<lparr>clients := [typing_client 0 [0, 0, 0, 0, 2, 0, 0, 0, 120, 121]]\<rparr>" _
      "[\<lparr>mtyp = MSG_CONTENT, payload = [120, 121]\<rparr>]" 0 1] typing_reads
  by (simp add: typing_client_def new_client_def server_init_def typing_bytes takes_def packet_ok_def
      MAX_PAYLOAD_def eagain_def del: encode_simps)

text \<open>A read-only client cannot type: while its read-only flag is set, and whatever it sends (content,
  keys, resizes, garbage, an attach that keeps the flag), reading it puts nothing into the terminal's
  input, for every behaviour of its socket and of the pty.\<close>

lemma readonly_client_cannot_type:
  assumes "flags (clients s ! i) AND CLIENT_READONLY \<noteq> 0"
    and "\<forall>p \<in> set (fst (pop_all (buf (clients s ! i) @ readable (rx (stream (clients s ! i)))))).
      mtyp p = MSG_ATTACH \<longrightarrow> (\<exists>g. read_u32 (payload p) = Some g \<and> g AND CLIENT_READONLY \<noteq> 0)"
  shows "m_in (read_client_packets inst pid i s) = m_in s"
proof (cases "read_fails (rx (stream (clients s ! i)))")
  case True
  then show ?thesis by (simp add: read_client_packets_in read_client_failed)
next
  case False
  from read_client_typed [OF this, of inst pid s] typed_readonly [OF assms] show ?thesis
    by (simp add: read_client_packets_in)
qed

text \<open>C37: When the pty's input queue fills up in the middle of a packet, the rest of the packet is
  dropped for good: the master accepts \<open>k\<close> bytes and then answers \<open>EAGAIN\<close>, the server ignores the
  error, and the packet has left the client's buffer, so no later pass writes the remainder.\<close>

theorem keystrokes_dropped_when_pty_full:
  assumes "i < length (clients s)" and "c = clients s ! i"
    and "buf c @ readable (rx (stream c)) = packet_bytes p" and "packet_ok p"
    and "mtyp p = MSG_CONTENT" and "flags c AND CLIENT_READONLY = 0"
    and "\<not> read_fails (rx (stream c))"
    and "m_tx s = [Count k, WriteErr eagain]" and "0 < k" and "k < length (payload p)"
  shows "m_in (read_client_packets inst pid i s) = m_in s @ take k (payload p) \<and>
    buf (clients (read_client_packets inst pid i s) ! i) = []"
proof -
  have "m_in (snd (read_client inst pid (c, s))) = m_in (write_master (payload p) s) \<and>
      buf (fst (read_client inst pid (c, s))) = []"
    using read_client_typed [OF assms(7), of inst pid s] assms(3-6) pop_all_encode [of "[p]"] by simp
  moreover obtain b bs where "payload p = b # bs" using assms(10) by (cases "payload p") auto
  moreover from this assms(9,10) obtain d ds where "drop k (b # bs) = d # ds"
    by (cases "drop k (b # bs)") auto
  ultimately show ?thesis
    using assms(1,2,8,9)
    by (simp add: read_client_packets_in write_master_def fd_write_all_def eagain_def)
qed

theorem keystrokes_dropped_when_pty_full_witness:
  "m_in (read_client_packets 0 1 0 ((server_init True [] [Count 1, WriteErr eagain])
      \<lparr>clients := [typing_client 0 [0, 0, 0, 0, 2, 0, 0, 0, 120, 121]]\<rparr>)) = [120]"
  using keystrokes_dropped_when_pty_full [of 0 "(server_init True [] [Count 1, WriteErr eagain])
      \<lparr>clients := [typing_client 0 [0, 0, 0, 0, 2, 0, 0, 0, 120, 121]]\<rparr>" _
      "\<lparr>mtyp = MSG_CONTENT, payload = [120, 121]\<rparr>" 1 0 1] typing_reads typing_bytes
  by (simp add: typing_client_def new_client_def server_init_def packet_ok_def MAX_PAYLOAD_def eagain_def)

end
