(* ===== verification/Bounds.thy ===== *)
theory Bounds
  imports Guarantees Keyboard
begin

text \<open>
  How much the server holds: the receive buffer of every client it keeps is shorter than one packet
  between two passes, so its memory is bounded by its clients alone.
\<close>

subsection \<open>Receive buffers\<close>

lemma pop_packet_stays: "pop_packet b = (None, r) \<Longrightarrow> length r < 8 + MAX_PAYLOAD"
  by (auto simp: pop_packet_def Let_def split: if_splits)

lemma pop_all_stays: "length (snd (pop_all b)) < 8 + MAX_PAYLOAD"
proof (induction b rule: pop_all.induct)
  case (1 b)
  show ?case
  proof (cases "pop_packet b")
    case (Pair q r)
    show ?thesis
    proof (cases q)
      case None
      with Pair pop_packet_stays [of b r] show ?thesis by (simp add: pop_all.simps [of b])
    next
      case (Some p)
      with "1.IH" [OF Pair [symmetric] Some] Pair show ?thesis
        by (simp add: pop_all.simps [of b] case_prod_beta)
    qed
  qed
qed

definition tidy :: "client \<Rightarrow> bool" where
  "tidy c \<longleftrightarrow> disconnected c \<or> length (buf c) < 8 + MAX_PAYLOAD"

lemma read_client_tidy: "tidy (fst (read_client inst pid (c, s)))"
proof (cases "read_fails (rx (stream c))")
  case True
  with read_loop_end [of "rx (stream c)" "buf c" "[]"] show ?thesis
    by (cases "read_loop (rx (stream c)) (buf c)")
      (simp add: tidy_def read_client_def read_fails_def Let_def)
next
  case False
  from read_client_typed [OF this, of inst pid s] pop_all_stays show ?thesis
    by (simp add: tidy_def)
qed

lemma broadcast_if_tidy: "tidy c \<Longrightarrow> tidy (broadcast_if bs c)"
  by (auto simp: tidy_def broadcast_if_def broadcast_one_alt Let_def)

lemma fold_broadcast_tidy: "tidy c \<Longrightarrow> tidy (fold broadcast_if ds c)"
  by (induction ds arbitrary: c) (simp_all add: broadcast_if_tidy)

lemma late_phases_tidy:
  "tidy c \<Longrightarrow> tidy (exit_one t st c)" "tidy c \<Longrightarrow> tidy (flush_one c)" "tidy c \<Longrightarrow> tidy (deadline_one now c)"
  by (auto simp: tidy_def exit_one_def flush_one_alt deadline_one_def Let_def split: option.splits)

lemma read_phase_tidy:
  assumes "\<forall>c \<in> set (clients s). tidy c"
  shows "\<forall>c \<in> set (clients (read_phase cfg at s)). tidy c"
proof -
  have "\<forall>c \<in> set (clients (fold (\<lambda>i. read_client_packets (at i) pid i) is s)). tidy c"
    if "\<forall>c \<in> set (clients s). tidy c" for "is" pid s
    using that
  proof (induction "is" arbitrary: s)
    case (Cons i "is")
    have "\<forall>c \<in> set (clients (read_client_packets (at i) pid i s)). tidy c"
      using Cons.prems set_update_subsetI [of "clients s" "{c. tidy c}" "fst (read_client (at i) pid (clients s ! i, s))" i]
        read_client_tidy by auto
    then show ?case unfolding fold_simps by (rule Cons.IH)
  qed simp
  with assms show ?thesis by (simp add: read_phase_def)
qed

lemma accept_loop_tidy:
  "accept_loop cfg as s = Some s' \<Longrightarrow> \<forall>c \<in> set (clients s). tidy c \<Longrightarrow> \<forall>c \<in> set (clients s'). tidy c"
proof (induction cfg as s rule: accept_loop.induct)
  case (3 cfg sk nb as s)
  have "tidy (new_client sk')" for sk' by (simp add: tidy_def new_client_def)
  with 3 show ?case by (auto split: option.splits)
qed simp_all

lemma tidy_tick:
  assumes "server_tick cfg env s = Some r" "\<forall>c \<in> set (clients s). tidy c"
  shows "\<forall>c \<in> set (clients (after r)). tidy c"
proof -
  obtain s1 where acc: "accept_loop cfg (accept_answers env)
      (poll_shutdown cfg (shutdown_requested env) s) = Some s1"
    and r: "r = finish (close_phase (now_at env) (to_exit cfg env s1))"
    using assms(1) by (rule tick_stages)
  have "\<forall>c \<in> set (clients s1). tidy c" using accept_loop_tidy [OF acc] assms(2) by simp
  then have "\<forall>c \<in> set (clients (pty_phase s1)). tidy c"
    by (auto simp: pty_phase_def pty_loop_fields fold_broadcast_tidy)
  then have "\<forall>c \<in> set (clients (read_phase cfg (read_at env) (wait_phase cfg (wait_answer env) (pty_phase s1)))). tidy c"
    by (intro read_phase_tidy) simp
  then have "\<forall>c \<in> set (clients (to_exit cfg env s1)). tidy c"
    by (auto simp: to_exit_def exit_phase_def late_phases_tidy enumerate_eq_zip
        split: option.splits dest: set_zip_rightD)
  then show ?thesis by (auto simp: r close_phase_def late_phases_tidy)
qed

interpretation tidied: pass_invariant "\<lambda>s. \<forall>c \<in> set (clients s). tidy c" cfg "\<lambda>env. True" for cfg
  by unfold_locales (rule tidy_tick)

subsection \<open>Properties\<close>

definition held :: "server \<Rightarrow> nat" where
  "held s = length (snapshot (history_of s)) +
     sum_list (map (\<lambda>c. length (buf c) + length (send_queue c)) (clients s))"

text \<open>C12: The server's memory is bounded by the number of its clients: in every state between two passes, whatever
  was sent to it and however slowly its clients read, the history, the receive buffers and the
  queues hold at most \<open>HISTORY_CAP\<close> bytes and, for each client, \<open>SEND_QUEUE_CAP\<close> bytes out and 4095
  bytes in.\<close>

theorem memory_bounded:
  assumes "server_loop cfg envs (server_init rp prx ptx) = Running s"
  shows "held s \<le> HISTORY_CAP + length (clients s) * (SEND_QUEUE_CAP + 4095)"
proof -
  have "\<forall>c \<in> set (clients s). tidy c"
    using assms by (rule tidied.inv_running) (simp_all add: server_init_def list_all_iff)
  moreover have "\<forall>c \<in> set (clients s). queue_bounded c"
    using assms by (rule bounded.every.inv_running) (simp_all add: server_init_def list_all_iff)
  moreover have st: "settled s"
    using assms by (rule settling.inv_running) (simp_all add: settled_init list_all_iff)
  ultimately have "length (buf c) + length (send_queue c) \<le> SEND_QUEUE_CAP + 4095" if "c \<in> set (clients s)" for c
    using that by (fastforce simp: tidy_def queue_bounded_def settled_def MAX_PAYLOAD_def)
  then have "sum_list (map (\<lambda>c. length (buf c) + length (send_queue c)) (clients s)) \<le>
      sum_list (map (\<lambda>c. SEND_QUEUE_CAP + 4095) (clients s))"
    by (rule sum_list_mono)
  with st show ?thesis by (simp add: held_def settled_def sum_list_triv)
qed

theorem memory_bounded_witness:
  "held ((server_init False [] [])\<lparr>clients := [demo_client], read_pty := True\<rparr>) \<le> HISTORY_CAP + SEND_QUEUE_CAP + 4095"
  using memory_bounded [OF demo_run] by simp

end
