(* ===== verification/Live.thy ===== *)
theory Live
  imports Bounds "HOL-Library.Stream"
begin

text \<open>
  Passes that may not end. The loops of \<open>server_loop\<close> over \<open>accept\<close>, over the pty's output and
  over a client's input (\<open>read_client_packets\<close>) run until the system call answers \<open>EAGAIN\<close>, end of
  file or an error, and nothing in the source bounds them. \<open>server_tick\<close> takes the answers of one
  pass as finite scripts, after which every call answers \<open>EAGAIN\<close>; here the scripts are followed by
  endless streams of further answers, each loop is a partial function that is undefined where the
  loop does not end, and \<open>tick_live\<close> is the pass made of them. With sources that have nothing more to
  say it is \<open>server_tick\<close>; in general it returns precisely if every source comes to a pause.
\<close>

subsection \<open>The loops\<close>

text \<open>A call takes its answer from the script if there is one left, and from the stream otherwise.\<close>

definition live_read ::
  "nat \<Rightarrow> read_answer list \<Rightarrow> read_answer stream \<Rightarrow> bytes io_result \<times> read_answer list \<times> read_answer stream" where
  "live_read n rs st =
     (if rs = [] then (case next_read n [shd st] of (r, rs') \<Rightarrow> (r, rs', stl st))
      else (case next_read n rs of (r, rs') \<Rightarrow> (r, rs', st)))"

partial_function (option) accept_live :: "server_cfg \<Rightarrow> accept_answer stream \<Rightarrow> server \<Rightarrow> server option" where
  "accept_live cfg st s =
     (case shd st of
        AcceptErr e \<Rightarrow> Some s
      | Accepted sk nb \<Rightarrow>
          (case send_packet_blocking \<lparr>mtyp = MSG_PID, payload = u64_to_ne_bytes (server_pid cfg)\<rparr> sk of
             None \<Rightarrow> None
           | Some x \<Rightarrow>
               (case nb of
                  Some e \<Rightarrow> accept_live cfg (stl st)
                    (emit [ServerLog ''accept-error'' (''set_nonblocking failed: '' @ err_msg e)] s)
                | None \<Rightarrow> accept_live cfg (stl st)
                    (s\<lparr>clients := clients s @ [new_client (snd x)], read_pty := True\<rparr>))))"

partial_function (option) pty_live :: "read_answer stream \<Rightarrow> server \<Rightarrow> server option" where
  "pty_live st s =
     (case live_read MAX_PAYLOAD (m_rx s) st of
        (Inr bs, rs, st') \<Rightarrow>
          (if bs = [] then Some (s\<lparr>m_rx := rs, read_pty := False\<rparr>)
           else pty_live st' (s\<lparr>m_rx := rs, history_of := history_append (history_of s) bs,
                                clients := broadcast_content (clients s) bs\<rparr>))
      | (Inl e, rs, st') \<Rightarrow>
          (if err_kind e = WouldBlock then Some (s\<lparr>m_rx := rs\<rparr>)
           else if err_kind e = Interrupted then pty_live st' (s\<lparr>m_rx := rs\<rparr>)
           else Some (s\<lparr>m_rx := rs, read_pty := False\<rparr>)))"

partial_function (option) read_live ::
  "read_answer stream \<Rightarrow> read_answer list \<Rightarrow> bytes \<Rightarrow> (read_end \<times> bytes \<times> read_answer list) option" where
  "read_live st rs b =
     (case live_read 8192 rs st of
        (Inr bs, rs', st') \<Rightarrow> (if bs = [] then Some (SawEof, b, rs') else read_live st' rs' (b @ bs))
      | (Inl e, rs', st') \<Rightarrow>
          (if err_kind e = WouldBlock then Some (Drained, b, rs')
           else if err_kind e = Interrupted then read_live st' rs' b
           else Some (Failed, b, rs')))"

subsection \<open>The pass\<close>

definition read_client_live ::
  "read_answer stream \<Rightarrow> nat \<Rightarrow> int \<Rightarrow> client \<times> server \<Rightarrow> (client \<times> server) option" where
  "read_client_live st inst pid cs =
     (let c = fst cs; s = snd cs
      in case read_live st (rx (stream c)) (buf c) of
        None \<Rightarrow> None
      | Some (e, b, rs) \<Rightarrow>
          Some (let c1 = c\<lparr>stream := (stream c)\<lparr>rx := rs\<rparr>, buf := b\<rparr>
                in if e = Failed then (c1\<lparr>disconnected := True\<rparr>, s)
                   else let r = packet_loop inst pid (c1, s)
                        in if e = SawEof then ((fst r)\<lparr>disconnected := True\<rparr>, snd r) else r))"

definition read_packets_live ::
  "read_answer stream \<Rightarrow> nat \<Rightarrow> int \<Rightarrow> nat \<Rightarrow> server \<Rightarrow> server option" where
  "read_packets_live st inst pid idx s =
     (case read_client_live st inst pid (clients s ! idx, s) of
        None \<Rightarrow> None
      | Some r \<Rightarrow> Some ((snd r)\<lparr>clients := (clients s)[idx := fst r]\<rparr>))"

fun reads_live ::
  "(nat \<Rightarrow> read_answer stream) \<Rightarrow> (nat \<Rightarrow> nat) \<Rightarrow> int \<Rightarrow> nat list \<Rightarrow> server \<Rightarrow> server option" where
  "reads_live sts at pid [] s = Some s"
| "reads_live sts at pid (i # is) s =
     (case read_packets_live (sts i) (at i) pid i s of
        None \<Rightarrow> None
      | Some s' \<Rightarrow> reads_live sts at pid is s')"

text \<open>What goes on arriving during the pass: connections, the child's output, each client's input.\<close>

record arrivals =
  incoming :: "accept_answer stream"
  child_out :: "read_answer stream"
  sent_by :: "nat \<Rightarrow> read_answer stream"

definition tick_live :: "server_cfg \<Rightarrow> tick_env \<Rightarrow> arrivals \<Rightarrow> server \<Rightarrow> tick_result option" where
  "tick_live cfg env ar s =
     (case accept_live cfg (accept_answers env @- incoming ar) (poll_shutdown cfg (shutdown_requested env) s) of
        None \<Rightarrow> None
      | Some s1 \<Rightarrow>
          (case (if read_pty s1 then pty_live (child_out ar) s1 else Some s1) of
             None \<Rightarrow> None
           | Some s2 \<Rightarrow>
               (case reads_live (sent_by ar) (read_at env) (child_pid cfg) [0..<length (clients s2)]
                       (wait_phase cfg (wait_answer env) s2) of
                  None \<Rightarrow> None
                | Some s3 \<Rightarrow> Some (finish (close_phase (now_at env) (exit_phase (exit_at env) s3))))))"

subsection \<open>Answers that end a loop\<close>

definition stops :: "read_answer \<Rightarrow> bool" where
  "stops a = (case a of Bytes bs \<Rightarrow> bs = [] | ReadErr e \<Rightarrow> err_kind e \<noteq> Interrupted)"

definition pauses :: "read_answer list \<Rightarrow> read_answer stream \<Rightarrow> bool" where
  "pauses rs st \<longleftrightarrow> (\<exists>a \<in> set rs \<union> sset st. stops a)"

definition ends_loop :: "bytes io_result \<Rightarrow> bool" where
  "ends_loop r = (case r of Inr bs \<Rightarrow> bs = [] | Inl e \<Rightarrow> err_kind e \<noteq> Interrupted)"

lemma ends_loop_simps [simp]:
  "ends_loop (Inr bs) \<longleftrightarrow> bs = []" "ends_loop (Inl e) \<longleftrightarrow> err_kind e \<noteq> Interrupted"
  by (simp_all add: ends_loop_def)

lemma next_read_cons:
  "0 < n \<Longrightarrow> next_read n (a # rs) =
     (case next_read n [a] of (r, rs') \<Rightarrow> (r, rs' @ rs)) \<and>
   (ends_loop (fst (next_read n [a])) \<longleftrightarrow> stops a) \<and>
   list_all (\<lambda>b. \<not> stops b) (snd (next_read n [a])) \<and> rx_size (snd (next_read n [a])) < answer_size a"
  by (cases a) (auto simp: stops_def)

lemma live_read_step:
  assumes "live_read n rs st = (r, rs', st')" "0 < n"
  obtains a as st1 where "rs = a # as \<and> st1 = st \<or> rs = [] \<and> as = [] \<and> st = a ## st1"
    and "st' = st1" "next_read n [a] = (r, take (length rs' - length as) rs')" "rs' = snd (next_read n [a]) @ as"
    and "ends_loop r \<longleftrightarrow> stops a"
proof (cases rs)
  case Nil
  with assms next_read_cons [of n "shd st" "[]"] that [of "shd st" "[]" "stl st"] show ?thesis
    by (auto simp: live_read_def split: prod.splits)
next
  case (Cons a as)
  with assms next_read_cons [of n a as] that [of a as st] show ?thesis
    by (auto simp: live_read_def split: prod.splits)
qed

lemma pauses_step:
  assumes "live_read n rs st = (r, rs', st')" "0 < n"
  shows "pauses rs st \<longleftrightarrow> ends_loop r \<or> pauses rs' st'"
proof -
  from assms obtain a as st1 where s: "rs = a # as \<and> st1 = st \<or> rs = [] \<and> as = [] \<and> st = a ## st1" "st' = st1"
    "rs' = snd (next_read n [a]) @ as" "ends_loop r \<longleftrightarrow> stops a" by (rule live_read_step)
  with next_read_cons [OF assms(2), of a as] show ?thesis
    by (auto simp: pauses_def list_all_iff)
qed

lemma rx_size_append [simp]: "rx_size (rs @ rs') = rx_size rs + rx_size rs'"
  by (simp add: rx_size_def)

text \<open>A call on the live source is the call on a script that holds the answers up to one that ends the loop.\<close>

lemma live_read_fed:
  assumes "live_read n rs st = (r, rs', st')" "0 < n" "list_ex stops (rs @ stake k st)"
  obtains k' where "next_read n (rs @ stake k st) = (r, rs' @ stake k' st')"
    "rx_size (rs' @ stake k' st') < rx_size (rs @ stake k st)"
    "ends_loop r \<or> list_ex stops (rs' @ stake k' st')"
proof -
  from assms(1,2) obtain a as st1 where s: "rs = a # as \<and> st1 = st \<or> rs = [] \<and> as = [] \<and> st = a ## st1" "st' = st1"
    "next_read n [a] = (r, take (length rs' - length as) rs')"
    "rs' = snd (next_read n [a]) @ as" "ends_loop r \<longleftrightarrow> stops a" by (rule live_read_step)
  obtain k' where k: "rs @ stake k st = a # as @ stake k' st'"
  proof (cases rs)
    case Nil
    with assms(3) s that show ?thesis by (cases k) auto
  next
    case (Cons b bs)
    with s that [of k] show ?thesis by auto
  qed
  have "r = fst (next_read n [a])" using s(3) by simp
  with next_read_cons [OF assms(2), of a "as @ stake k' st'"] s(4)
  have "next_read n (rs @ stake k st) = (r, rs' @ stake k' st')"
    "rx_size (rs' @ stake k' st') < rx_size (rs @ stake k st)"
    by (auto simp: k split: prod.splits)
  moreover have "ends_loop r \<or> list_ex stops (rs' @ stake k' st')"
    using assms(3) s(5) by (auto simp: k s(4))
  ultimately show ?thesis by (rule that)
qed

lemma stake_in_sset: "a \<in> set (stake k st) \<Longrightarrow> a \<in> sset st"
  by (auto simp: in_set_conv_nth)

lemma pauses_fed: "pauses rs st \<longleftrightarrow> (\<exists>k. list_ex stops (rs @ stake k st))"
proof
  assume "pauses rs st"
  then consider a where "a \<in> set rs" "stops a" | i where "stops (st !! i)"
    by (auto simp: pauses_def sset_range)
  then show "\<exists>k. list_ex stops (rs @ stake k st)"
  proof cases
    case 1
    then show ?thesis by (auto simp: list_ex_iff)
  next
    case (2 i)
    then have "list_ex stops (stake (Suc i) st)" by (auto simp: list_ex_iff stake_Suc simp del: stake.simps)
    then show ?thesis by (auto simp del: stake.simps)
  qed
next
  assume "\<exists>k. list_ex stops (rs @ stake k st)"
  then show "pauses rs st" by (auto simp: pauses_def list_ex_iff stake_in_sset)
qed

subsection \<open>The loops return precisely if their source pauses\<close>

lemma m_rx_last:
  "s\<lparr>m_rx := rs, read_pty := b\<rparr> = s\<lparr>read_pty := b, m_rx := rs\<rparr>"
  "s\<lparr>m_rx := rs, history_of := h, clients := cs\<rparr> = s\<lparr>history_of := h, clients := cs, m_rx := rs\<rparr>"
  by simp_all

lemma pty_live_fed:
  "list_ex stops (m_rx s @ stake k st) \<Longrightarrow>
     \<exists>rs. pty_live st s = Some ((pty_loop (s\<lparr>m_rx := m_rx s @ stake k st\<rparr>))\<lparr>m_rx := rs\<rparr>)"
proof (induction "rx_size (m_rx s @ stake k st)" arbitrary: s k st rule: less_induct)
  case less
  obtain r rs st' where c: "live_read MAX_PAYLOAD (m_rx s) st = (r, rs, st')" by (cases "live_read MAX_PAYLOAD (m_rx s) st")
  from live_read_fed [OF c _ less.prems] obtain k' where k:
    "next_read MAX_PAYLOAD (m_rx s @ stake k st) = (r, rs @ stake k' st')"
    "rx_size (rs @ stake k' st') < rx_size (m_rx s @ stake k st)"
    "ends_loop r \<or> list_ex stops (rs @ stake k' st')" by (auto simp: MAX_PAYLOAD_def)
  note i = less.hyps [where k = k' and st = st']
  let ?s = "s\<lparr>m_rx := m_rx s @ stake k st\<rparr>"
  show ?case
  proof (cases r)
    case (Inl e)
    with c k i [of "s\<lparr>m_rx := rs\<rparr>"] show ?thesis
      by (auto simp: pty_live.simps [of st s] pty_loop.simps [of ?s] m_rx_last)
  next
    case (Inr bs)
    with c k i [of "s\<lparr>m_rx := rs, history_of := history_append (history_of s) bs,
        clients := broadcast_content (clients s) bs\<rparr>"] show ?thesis
      by (auto simp: pty_live.simps [of st s] pty_loop.simps [of ?s] m_rx_last)
  qed
qed

lemma pty_live_pauses: "pty_live st s = Some s' \<Longrightarrow> pauses (m_rx s) st"
proof (induction arbitrary: rule: pty_live.raw_induct [rotated, consumes 1])
  case (1 rec st s s')
  obtain r rs st' where c: "live_read MAX_PAYLOAD (m_rx s) st = (r, rs, st')" by (cases "live_read MAX_PAYLOAD (m_rx s) st")
  have p: "pauses (m_rx s) st \<longleftrightarrow> ends_loop r \<or> pauses rs st'"
    using pauses_step [OF c] by (simp add: MAX_PAYLOAD_def)
  show ?case
  proof (cases r)
    case (Inl e)
    with 1(2) 1(1) [of st' "s\<lparr>m_rx := rs\<rparr>"] c p show ?thesis by (auto split: if_splits)
  next
    case (Inr bs)
    with 1(2) 1(1) [of st' "s\<lparr>m_rx := rs, history_of := history_append (history_of s) bs,
        clients := broadcast_content (clients s) bs\<rparr>"] c p show ?thesis by (auto split: if_splits)
  qed
qed

lemma pty_live_returns: "(\<exists>s'. pty_live st s = Some s') \<longleftrightarrow> pauses (m_rx s) st"
  proof
  assume "pauses (m_rx s) st"
  then obtain k where "list_ex stops (m_rx s @ stake k st)" by (auto simp: pauses_fed)
  from pty_live_fed [OF this] show "\<exists>s'. pty_live st s = Some s'" by auto
qed (auto dest: pty_live_pauses)

lemma read_live_fed:
  "list_ex stops (rs @ stake k st) \<Longrightarrow>
     \<exists>ys. read_live st rs b = Some (case read_loop (rs @ stake k st) b of (e, b', ys') \<Rightarrow> (e, b', ys))"
proof (induction "rx_size (rs @ stake k st)" arbitrary: rs b k st rule: less_induct)
  case less
  obtain r rs' st' where c: "live_read 8192 rs st = (r, rs', st')" by (cases "live_read 8192 rs st")
  from live_read_fed [OF c _ less.prems] obtain k' where k:
    "next_read 8192 (rs @ stake k st) = (r, rs' @ stake k' st')"
    "rx_size (rs' @ stake k' st') < rx_size (rs @ stake k st)"
    "ends_loop r \<or> list_ex stops (rs' @ stake k' st')" by auto
  note i = less.hyps [where k = k' and st = st' and rs = rs']
  show ?case
  proof (cases r)
    case (Inl e)
    with c k i [of b] show ?thesis
      by (auto simp: read_live.simps [of st rs] read_loop.simps [of "rs @ stake k st"])
  next
    case (Inr bs)
    with c k i [of "b @ bs"] show ?thesis
      by (auto simp: read_live.simps [of st rs] read_loop.simps [of "rs @ stake k st"])
  qed
qed

lemma read_live_pauses: "read_live st rs b = Some x \<Longrightarrow> pauses rs st"
proof (induction arbitrary: rule: read_live.raw_induct [rotated, consumes 1])
  case (1 rec st rs b x)
  obtain r rs' st' where c: "live_read 8192 rs st = (r, rs', st')" by (cases "live_read 8192 rs st")
  have p: "pauses rs st \<longleftrightarrow> ends_loop r \<or> pauses rs' st'" using pauses_step [OF c] by simp
  show ?case
  proof (cases r)
    case (Inl e)
    with 1(2) 1(1) [of st' rs' b] c p show ?thesis by (auto split: if_splits)
  next
    case (Inr bs)
    with 1(2) 1(1) [of st' rs' "b @ bs"] c p show ?thesis by (auto split: if_splits)
  qed
qed

lemma read_live_returns: "(\<exists>x. read_live st rs b = Some x) \<longleftrightarrow> pauses rs st"
proof
  assume "pauses rs st"
  then obtain k where "list_ex stops (rs @ stake k st)" by (auto simp: pauses_fed)
  from read_live_fed [OF this, of b] show "\<exists>x. read_live st rs b = Some x" by blast
qed (auto dest: read_live_pauses)

subsection \<open>Accepting\<close>

fun is_accepted :: "accept_answer \<Rightarrow> bool" where
  "is_accepted (Accepted sk nb) = True"
| "is_accepted (AcceptErr e) = False"

definition takes_greeting :: "server_cfg \<Rightarrow> accept_answer \<Rightarrow> bool" where
  "takes_greeting cfg a =
     (case a of
        AcceptErr e \<Rightarrow> True
      | Accepted sk nb \<Rightarrow> send_packet_blocking (pid_packet cfg) sk \<noteq> None)"

lemma accept_loop_returns:
  "accept_loop cfg as s \<noteq> None \<longleftrightarrow> list_all (takes_greeting cfg) (takeWhile is_accepted as)"
proof (induction cfg as s rule: accept_loop.induct)
  case (3 cfg sk nb as s)
  show ?case
  proof (cases "send_packet_blocking (pid_packet cfg) sk")
    case None
    then show ?thesis by (simp add: takes_greeting_def pid_packet_def)
  next
    case (Some x)
    obtain r sk' where x: "x = (r, sk')" by (cases x)
    note sent = Some [unfolded pid_packet_def x]
    show ?thesis
    proof (cases nb)
      case None
      with "3.IH"(1) [OF sent refl None] sent show ?thesis by (simp add: takes_greeting_def pid_packet_def)
    next
      case (Some e)
      with "3.IH"(2) [OF sent refl Some] sent show ?thesis
        by (simp add: takes_greeting_def pid_packet_def del: append_Cons)
    qed
  qed
qed simp_all

text \<open>The connections that become clients, by what each has to read.\<close>

fun admitted :: "accept_answer list \<Rightarrow> read_answer list list" where
  "admitted [] = []"
| "admitted (Accepted sk None # as) = rx sk # admitted as"
| "admitted (a # as) = admitted as"

lemma blocking_keeps_rx: "send_packet_blocking p s = Some (r, s') \<Longrightarrow> rx s' = rx s"
  by (auto simp: send_packet_blocking_def write_all_def split: option.splits)

lemma accept_loop_admits:
  "accept_loop cfg as s = Some s' \<Longrightarrow> list_all is_accepted as \<Longrightarrow>
     map (\<lambda>c. rx (stream c)) (clients s') = map (\<lambda>c. rx (stream c)) (clients s) @ admitted as \<and>
     m_rx s' = m_rx s \<and> (read_pty s' \<longleftrightarrow> read_pty s \<or> admitted as \<noteq> [])"
proof (induction cfg as s rule: accept_loop.induct)
  case (3 cfg sk nb as s)
  from 3(3) obtain r sk' where sent: "send_packet_blocking \<lparr>mtyp = MSG_PID, payload = u64_to_ne_bytes (server_pid cfg)\<rparr> sk = Some (r, sk')"
    by (auto split: option.splits)
  show ?case
  proof (cases nb)
    case None
    with 3 sent blocking_keeps_rx [OF sent] show ?thesis by (simp add: new_client_def)
  next
    case (Some e)
    with 3 sent show ?thesis by simp
  qed
qed simp_all

lemma accept_live_script:
  "list_all is_accepted as \<Longrightarrow> accept_live cfg (as @- AcceptErr e ## st) s = accept_loop cfg as s"
proof (induction cfg as s rule: accept_loop.induct)
  case (1 cfg s)
  then show ?case by (simp add: accept_live.simps)
next
  case (2 cfg e as s)
  then show ?case by simp
next
  case (3 cfg sk nb as s)
  then show ?case by (subst accept_live.simps) (auto split: option.splits)
qed

lemma accept_live_errs:
  "accept_live cfg st s = Some s' \<Longrightarrow>
     \<exists>as e more. st = as @- AcceptErr e ## more \<and> list_all is_accepted as"
proof (induction arbitrary: rule: accept_live.raw_induct [rotated, consumes 1])
  case (1 rec cfg st s s')
  show ?case
  proof (cases "shd st")
    case (AcceptErr e)
    then have "st = [] @- AcceptErr e ## stl st" by (metis shift.simps(1) stream.collapse)
    then show ?thesis by (metis list.pred_inject(1))
  next
    case (Accepted sk nb)
    have "\<exists>t. rec cfg (stl st) t = Some s'"
      using 1(2) Accepted by (auto split: option.splits)
    with 1(1) obtain as e more where "stl st = as @- AcceptErr e ## more" "list_all is_accepted as" by blast
    then have "st = (Accepted sk nb # as) @- AcceptErr e ## more \<and> list_all is_accepted (Accepted sk nb # as)"
      using Accepted by (metis is_accepted.simps(1) list.pred_inject(2) shift.simps(2) stream.collapse)
    then show ?thesis by blast
  qed
qed

lemma accept_live_returns:
  "accept_live cfg st s = Some s' \<longleftrightarrow>
     (\<exists>as e more. st = as @- AcceptErr e ## more \<and> list_all is_accepted as \<and> accept_loop cfg as s = Some s')"
  using accept_live_errs accept_live_script by metis

subsection \<open>Reading the clients\<close>

lemma read_client_live_returns:
  "(\<exists>x. read_client_live st inst pid (c, s) = Some x) \<longleftrightarrow> pauses (rx (stream c)) st"
  by (simp add: read_client_live_def Let_def read_live_returns [symmetric, where b = "buf c"] split: option.splits)

lemma read_packets_live_fields:
  assumes "read_packets_live st inst pid i s = Some s'"
  shows "length (clients s') = length (clients s) \<and> (\<forall>j. j \<noteq> i \<longrightarrow> clients s' ! j = clients s ! j)"
  using assms by (auto simp: read_packets_live_def split: option.splits)

lemma reads_live_returns:
  "distinct is \<Longrightarrow>
     (\<exists>s'. reads_live sts at pid is s = Some s') \<longleftrightarrow> (\<forall>i \<in> set is. pauses (rx (stream (clients s ! i))) (sts i))"
proof (induction sts at pid "is" s rule: reads_live.induct)
  case (2 sts at pid i "is" s)
  show ?case
  proof (cases "read_packets_live (sts i) (at i) pid i s")
    case None
    with read_client_live_returns [of "sts i" "at i" pid "clients s ! i" s] show ?thesis
      by (auto simp: read_packets_live_def split: option.splits)
  next
    case (Some s1)
    have "\<exists>x. read_client_live (sts i) (at i) pid (clients s ! i, s) = Some x"
      using Some by (auto simp: read_packets_live_def split: option.splits)
    then have p: "pauses (rx (stream (clients s ! i))) (sts i)" by (simp only: read_client_live_returns)
    have "clients s1 ! j = clients s ! j" if "j \<in> set is" for j
      using read_packets_live_fields [OF Some] that "2.prems" by auto
    with "2.IH" [OF Some] "2.prems" Some p show ?thesis by auto
  qed
qed simp

subsection \<open>Sources with nothing more to say\<close>

definition forever :: "'a \<Rightarrow> 'a stream" where
  "forever a = sconst a"

lemma forever_simps [simp]: "shd (forever a) = a" "stl (forever a) = forever a" "sset (forever a) = {a}"
  by (simp_all add: forever_def)

definition nothing_more :: arrivals where
  "nothing_more =
     \<lparr>incoming = forever (AcceptErr eagain), child_out = forever (ReadErr eagain),
      sent_by = (\<lambda>i. forever (ReadErr eagain))\<rparr>"

lemma live_read_again:
  "live_read n rs (forever (ReadErr eagain)) = (case next_read n rs of (r, rs') \<Rightarrow> (r, rs', forever (ReadErr eagain)))"
  by (cases rs) (simp_all add: live_read_def)

lemma accept_live_again: "accept_live cfg (as @- forever (AcceptErr eagain)) s = accept_loop cfg as s"
proof (induction cfg as s rule: accept_loop.induct)
  case (3 cfg sk nb as s)
  then show ?case by (subst accept_live.simps) (auto split: option.splits)
qed (simp_all add: accept_live.simps)

lemma pty_live_again: "pty_live (forever (ReadErr eagain)) s = Some (pty_loop s)"
proof (induction s rule: pty_loop.induct)
  case (1 s)
  obtain r rs where c: "next_read MAX_PAYLOAD (m_rx s) = (r, rs)" by (cases "next_read MAX_PAYLOAD (m_rx s)")
  show ?case
  proof (cases r)
    case (Inl e)
    with c "1.IH"(1) [OF c [symmetric] Inl] show ?thesis
      by (simp add: pty_live.simps [of _ s] pty_loop.simps [of s] live_read_again)
  next
    case (Inr bs)
    with c "1.IH"(2) [OF c [symmetric] Inr] show ?thesis
      by (simp add: pty_live.simps [of _ s] pty_loop.simps [of s] live_read_again)
  qed
qed

lemma read_live_again: "read_live (forever (ReadErr eagain)) rs b = Some (read_loop rs b)"
proof (induction rs b rule: read_loop.induct)
  case (1 rs b)
  obtain r rs' where c: "next_read 8192 rs = (r, rs')" by (cases "next_read 8192 rs")
  show ?case
  proof (cases r)
    case (Inl e)
    with c "1.IH"(1) [OF c [symmetric] Inl] show ?thesis
      by (simp add: read_live.simps [of _ rs] read_loop.simps [of rs] live_read_again)
  next
    case (Inr bs)
    with c "1.IH"(2) [OF c [symmetric] Inr] show ?thesis
      by (simp add: read_live.simps [of _ rs] read_loop.simps [of rs] live_read_again)
  qed
qed

lemma reads_live_again:
  "reads_live (\<lambda>i. forever (ReadErr eagain)) at pid is s = Some (fold (\<lambda>i. read_client_packets (at i) pid i) is s)"
  by (induction "is" arbitrary: s)
    (simp_all add: read_packets_live_def read_client_live_def read_live_again read_client_packets_def
      read_client_def Let_def case_prod_beta)

lemma tick_live_again: "tick_live cfg env nothing_more s = server_tick cfg env s"
  by (simp add: tick_live_def server_tick_def nothing_more_def accept_live_again reads_live_again read_phase_def
      pty_phase_def pty_live_again split: option.splits)

subsection \<open>Properties\<close>

lemma pty_live_keeps_rx:
  assumes "pty_live st s = Some s'"
  shows "map (\<lambda>c. rx (stream c)) (clients s') = map (\<lambda>c. rx (stream c)) (clients s)"
proof -
  from pty_live_pauses [OF assms] obtain k where "list_ex stops (m_rx s @ stake k st)" by (auto simp: pauses_fed)
  from pty_live_fed [OF this] assms show ?thesis
    by (auto simp: pty_loop_fields fold_broadcast_keeps)
qed

lemma poll_shutdown_sources [simp]:
  "m_rx (poll_shutdown cfg b s) = m_rx s" "read_pty (poll_shutdown cfg b s) = read_pty s"
  "clients (poll_shutdown cfg b s) = clients s"
  by (simp_all add: poll_shutdown_def)

definition scripts :: "server \<Rightarrow> accept_answer list \<Rightarrow> read_answer list list" where
  "scripts s as = map (\<lambda>c. rx (stream c)) (clients s) @ admitted as"

lemma after_accept:
  assumes "accept_loop cfg as (poll_shutdown cfg b s) = Some s1" "list_all is_accepted as"
  shows "(\<exists>s2 s3. (if read_pty s1 then pty_live pst s1 else Some s1) = Some s2 \<and>
      reads_live sts at pid [0..<length (clients s2)] (wait_phase cfg w s2) = Some s3) \<longleftrightarrow>
    (read_pty s \<or> admitted as \<noteq> [] \<longrightarrow> pauses (m_rx s) pst) \<and>
    (\<forall>i < length (scripts s as). pauses (scripts s as ! i) (sts i))"
proof -
  have s1: "map (\<lambda>c. rx (stream c)) (clients s1) = scripts s as" "m_rx s1 = m_rx s"
    "read_pty s1 \<longleftrightarrow> read_pty s \<or> admitted as \<noteq> []"
    using accept_loop_admits [OF assms] by (simp_all add: scripts_def)
  have r: "(\<exists>s3. reads_live sts at pid [0..<length (clients s2)] (wait_phase cfg w s2) = Some s3) \<longleftrightarrow>
      (\<forall>i < length (scripts s as). pauses (scripts s as ! i) (sts i))"
    if "(if read_pty s1 then pty_live pst s1 else Some s1) = Some s2" for s2
  proof -
    have m: "map (\<lambda>c. rx (stream c)) (clients s2) = scripts s as"
      using that s1(1) pty_live_keeps_rx [of pst s1 s2] by (auto split: if_splits)
    then have l: "length (clients s2) = length (scripts s as)" by (metis length_map)
    have "rx (stream (clients s2 ! i)) = scripts s as ! i" if "i < length (clients s2)" for i
      using that by (simp flip: m)
    with l show ?thesis by (subst reads_live_returns) auto
  qed
  have q: "(\<exists>s2. (if read_pty s1 then pty_live pst s1 else Some s1) = Some s2) \<longleftrightarrow>
      (read_pty s \<or> admitted as \<noteq> [] \<longrightarrow> pauses (m_rx s) pst)"
    using pty_live_returns [of pst s1] s1(2,3) by auto
  from r q show ?thesis by blast
qed

text \<open>C29: A pass is held up for as long as any of its sources keeps talking: it returns if and only if the queue of
  incoming connections runs out or fails and each connection accepted before takes its greeting, the
  child's output (once it is read) comes to a pause or to its end, and so does the input of each
  client, the new ones included. No limit of the server ends a loop, so one child or one client that
  writes without a pause keeps the others, the exit of the child and a \<open>SIGTERM\<close> waiting. When
  nothing more arrives than the scripts of \<open>server_tick\<close> hold, the pass is that one.\<close>

theorem pass_returns_when_sources_pause:
  "((\<exists>r. tick_live cfg env ar s = Some r) \<longleftrightarrow>
     (\<exists>as e more. accept_answers env @- incoming ar = as @- AcceptErr e ## more \<and>
        list_all is_accepted as \<and> list_all (takes_greeting cfg) as \<and>
        (read_pty s \<or> admitted as \<noteq> [] \<longrightarrow> pauses (m_rx s) (child_out ar)) \<and>
        (\<forall>i < length (scripts s as). pauses (scripts s as ! i) (sent_by ar i)))) \<and>
   tick_live cfg env nothing_more s = server_tick cfg env s"
proof -
  let ?p = "poll_shutdown cfg (shutdown_requested env) s"
  have g: "(\<exists>s1. accept_loop cfg as ?p = Some s1) \<longleftrightarrow> list_all (takes_greeting cfg) as" if "list_all is_accepted as" for as
  proof -
    have "takeWhile is_accepted as = as" using that by (simp add: takeWhile_eq_all_conv list_all_iff)
    with accept_loop_returns [of cfg as ?p] show ?thesis by simp
  qed
  let ?rest = "\<lambda>s1. \<exists>s2 s3. (if read_pty s1 then pty_live (child_out ar) s1 else Some s1) = Some s2 \<and>
      reads_live (sent_by ar) (read_at env) (child_pid cfg) [0..<length (clients s2)]
        (wait_phase cfg (wait_answer env) s2) = Some s3"
  let ?talk = "\<lambda>as. (read_pty s \<or> admitted as \<noteq> [] \<longrightarrow> pauses (m_rx s) (child_out ar)) \<and>
      (\<forall>i < length (scripts s as). pauses (scripts s as ! i) (sent_by ar i))"
  have t: "?rest s1 \<longleftrightarrow> ?talk as" if "accept_loop cfg as ?p = Some s1" "list_all is_accepted as" for as s1
    using that by (rule after_accept)
  have gt: "(\<exists>s1. accept_loop cfg as ?p = Some s1 \<and> ?rest s1) \<longleftrightarrow> list_all (takes_greeting cfg) as \<and> ?talk as"
    if "list_all is_accepted as" for as
  proof (cases "accept_loop cfg as ?p")
    case None
    with g [OF that] show ?thesis by simp
  next
    case (Some s1)
    with g [OF that] have "list_all (takes_greeting cfg) as" by blast
    moreover have "(\<exists>s1. accept_loop cfg as ?p = Some s1 \<and> ?rest s1) \<longleftrightarrow> ?rest s1" unfolding Some by blast
    ultimately show ?thesis using t [OF Some that] by blast
  qed
  have "(\<exists>r. tick_live cfg env ar s = Some r) \<longleftrightarrow>
      (\<exists>s1. accept_live cfg (accept_answers env @- incoming ar) ?p = Some s1 \<and> ?rest s1)"
    by (auto simp: tick_live_def split: option.splits)
  also have "\<dots> \<longleftrightarrow> (\<exists>as e more. accept_answers env @- incoming ar = as @- AcceptErr e ## more \<and>
        list_all is_accepted as \<and> (\<exists>s1. accept_loop cfg as ?p = Some s1 \<and> ?rest s1))"
    unfolding accept_live_returns by blast
  also have "\<dots> \<longleftrightarrow> (\<exists>as e more. accept_answers env @- incoming ar = as @- AcceptErr e ## more \<and>
        list_all is_accepted as \<and> list_all (takes_greeting cfg) as \<and> ?talk as)"
    by (intro ex_cong1 conj_cong refl) (rule gt)
  finally show ?thesis using tick_live_again by blast
qed

text \<open>A child that writes without a pause holds the pass; the same pass ends once it stops.\<close>

theorem pass_returns_when_sources_pause_witness:
  "tick_live demo_cfg quiet_env (nothing_more\<lparr>child_out := forever (Bytes [120])\<rparr>) (server_init True [] []) = None \<and>
   tick_live demo_cfg quiet_env (nothing_more\<lparr>child_out := Bytes [120] ## forever (ReadErr eagain)\<rparr>) (server_init True [] []) \<noteq> None"
proof -
  have d: "as = [] \<and> e = eagain" if "[AcceptErr eagain] @- forever (AcceptErr eagain) = as @- AcceptErr e ## more" "list_all is_accepted as" for as e more
    using that by (cases as) auto
  have "\<not> (\<exists>r. tick_live demo_cfg quiet_env (nothing_more\<lparr>child_out := forever (Bytes [120])\<rparr>) (server_init True [] []) = Some r)"
    unfolding pass_returns_when_sources_pause [THEN conjunct1]
    using d by (fastforce simp: nothing_more_def quiet_env_def server_init_def pauses_def stops_def)
  moreover have "\<exists>r. tick_live demo_cfg quiet_env (nothing_more\<lparr>child_out := Bytes [120] ## forever (ReadErr eagain)\<rparr>) (server_init True [] []) = Some r"
    unfolding pass_returns_when_sources_pause [THEN conjunct1]
    by (rule exI [of _ "[]"], rule exI [of _ eagain])
      (simp add: nothing_more_def quiet_env_def server_init_def pauses_def stops_def scripts_def eagain_def)
  ultimately show ?thesis by (simp only: not_None_eq not_Some_eq) simp
qed

end
