(* ===== verification/Delivery.thy ===== *)
theory Delivery
  imports Guarantees Keyboard
begin

text \<open>
  Terminal output over whole runs of the server. The abstract view of a run is one byte string, the
  output taken from the pty; the history and what each attached client has been sent are
  functions of it. \<open>listens\<close> relates a client to itself some passes later, \<open>tracked\<close> the client
  vector to itself: those kept, in order, and those that came since.
\<close>

subsection \<open>All the bytes of a script\<close>

fun rx_bytes :: "read_answer list \<Rightarrow> bytes" where
  "rx_bytes [] = []"
| "rx_bytes (Bytes bs # rs) = bs @ rx_bytes rs"
| "rx_bytes (ReadErr e # rs) = rx_bytes rs"

lemma next_read_bytes:
  "next_read n rs = (Inr bs, rs') \<Longrightarrow> bs @ rx_bytes rs' = rx_bytes rs"
  "next_read n rs = (Inl e, rs') \<Longrightarrow> rx_bytes rs' = rx_bytes rs"
  by (cases "(n, rs)" rule: next_read.cases; auto)+

lemma pty_loop_bytes: "concat (pty_pieces (m_rx s)) @ rx_bytes (m_rx (pty_loop s)) = rx_bytes (m_rx s)"
proof (induction s rule: pty_loop.induct)
  case (1 s)
  show ?case
  proof (cases "next_read MAX_PAYLOAD (m_rx s)")
    case (Pair r rs)
    show ?thesis
    proof (cases r)
      case (Inl e)
      with Pair "1.IH"(1) [OF Pair [symmetric] Inl] next_read_bytes(2) [of MAX_PAYLOAD "m_rx s" e rs] show ?thesis
        by (auto simp: pty_loop.simps [of s] pty_pieces.simps [of "m_rx s"])
    next
      case (Inr bs)
      with Pair "1.IH"(2) [OF Pair [symmetric] Inr] next_read_bytes(1) [of MAX_PAYLOAD "m_rx s" bs rs] show ?thesis
        by (auto simp: pty_loop.simps [of s] pty_pieces.simps [of "m_rx s"])
    qed
  qed
qed

definition taken :: "server \<Rightarrow> bytes" where
  "taken s = (if read_pty s then concat (pty_pieces (m_rx s)) else [])"

lemma pty_phase_bytes: "taken s @ rx_bytes (m_rx (pty_phase s)) = rx_bytes (m_rx s)"
  by (simp add: taken_def pty_phase_def pty_loop_bytes)

lemma read_loop_bytes: "read_loop rs b = (e, b', rs') \<Longrightarrow> b' @ rx_bytes rs' = b @ rx_bytes rs"
proof (induction rs b arbitrary: e b' rs' rule: read_loop.induct)
  case (1 rs b)
  show ?case
  proof (cases "next_read 8192 rs")
    case (Pair r rs1)
    show ?thesis
    proof (cases r)
      case (Inl x)
      with "1.IH"(1) [OF Pair [symmetric] Inl] "1.prems" Pair next_read_bytes(2) [of 8192 rs x rs1]
      show ?thesis by (auto simp: read_loop.simps [of rs b] split: if_splits)
    next
      case (Inr bs)
      with "1.IH"(2) [OF Pair [symmetric] Inr] "1.prems" Pair next_read_bytes(1) [of 8192 rs bs rs1]
      show ?thesis by (auto simp: read_loop.simps [of rs b] split: if_splits)
    qed
  qed
qed

subsection \<open>A client that listens\<close>

text \<open>A client all of whose input, received and still to come, is packets that ask for no replay.\<close>

definition no_replay :: "packet \<Rightarrow> bool" where
  "no_replay p \<longleftrightarrow> packet_ok p \<and> mtyp p \<noteq> MSG_ATTACH \<and> mtyp p \<noteq> MSG_DUMP"

definition chatting :: "client \<Rightarrow> bool" where
  "chatting c \<longleftrightarrow> (\<exists>ins. buf c @ rx_bytes (rx (stream c)) = encode ins \<and> list_all no_replay ins)"

definition hears :: "bytes \<Rightarrow> client \<Rightarrow> client \<Rightarrow> bool" where
  "hears d c c' \<longleftrightarrow>
     attached c' \<and> chatting c' \<and>
     (\<exists>ps. list_all packet_ok ps \<and> outbound c' = outbound c @ encode ps \<and> contents ps = d)"

definition listens :: "bytes \<Rightarrow> client \<Rightarrow> client \<Rightarrow> bool" where
  "listens d c c' \<longleftrightarrow>
     (disconnected c \<longrightarrow> disconnected c') \<and>
     (\<not> disconnected c' \<longrightarrow> attached c \<longrightarrow> chatting c \<longrightarrow> hears d c c')"

lemma hearsI:
  assumes "attached c'" "chatting c'" "list_all packet_ok ps" "outbound c' = outbound c @ encode ps" "contents ps = d"
  shows "hears d c c'"
  unfolding hears_def using assms by blast

lemma hears_trans: "hears d c c1 \<Longrightarrow> hears d' c1 c2 \<Longrightarrow> hears (d @ d') c c2"
proof -
  assume a: "hears d c c1" "hears d' c1 c2"
  from a(1) obtain ps where "list_all packet_ok ps" "outbound c1 = outbound c @ encode ps" "contents ps = d"
    by (auto simp: hears_def)
  moreover from a(2) obtain qs where "list_all packet_ok qs" "outbound c2 = outbound c1 @ encode qs" "contents qs = d'"
    by (auto simp: hears_def)
  moreover from a(2) have "attached c2" "chatting c2" by (simp_all add: hears_def)
  ultimately show ?thesis by (intro hearsI [of _ "ps @ qs"]) simp_all
qed

lemma listensI:
  "(disconnected c \<Longrightarrow> disconnected c') \<Longrightarrow>
   (\<not> disconnected c' \<Longrightarrow> attached c \<Longrightarrow> chatting c \<Longrightarrow> hears d c c') \<Longrightarrow> listens d c c'"
  by (simp add: listens_def)

lemma listens_trans:
  assumes "listens d c c1" "listens d' c1 c2"
  shows "listens (d @ d') c c2"
proof (rule listensI)
  assume "\<not> disconnected c2" "attached c" "chatting c"
  with assms have "hears d c c1" by (auto simp: listens_def)
  moreover from this assms(2) \<open>\<not> disconnected c2\<close> have "hears d' c1 c2"
    by (simp add: listens_def hears_def)
  ultimately show "hears (d @ d') c c2" by (rule hears_trans)
qed (use assms in \<open>simp add: listens_def\<close>)

lemma listens_silent:
  assumes "outbound c' = outbound c" "attached c' = attached c" "buf c' = buf c"
    "rx (stream c') = rx (stream c)" "disconnected c \<Longrightarrow> disconnected c'"
  shows "listens [] c c'"
proof -
  have "hears [] c c'" if "attached c" "chatting c"
    using assms that unfolding hears_def by (auto simp: chatting_def intro!: exI [of _ "[]"])
  with assms(5) show ?thesis by (auto simp: listens_def)
qed

lemma listens_refl: "listens [] c c"
  by (rule listens_silent) simp_all

lemma listens_broadcast:
  assumes "\<forall>d \<in> set ds. length d \<le> MAX_PAYLOAD"
  shows "listens (concat ds) c (fold broadcast_if ds c)"
proof -
  have "contents (map content ds) = concat ds" by (induction ds) (simp_all add: content_def)
  moreover have "list_all packet_ok (map content ds)"
    using assms by (simp add: list_all_iff packet_ok_def content_def)
  ultimately have "hears (concat ds) c (fold broadcast_if ds c)"
    if "attached c" "chatting c" "\<not> disconnected (fold broadcast_if ds c)"
    using that fold_broadcast_outbound [OF that(1,3)] fold_broadcast_keeps [of ds c]
    unfolding hears_def chatting_def by (auto intro!: exI [of _ "map content ds"])
  then show ?thesis using fold_broadcast_disconnected by (auto simp: listens_def)
qed

subsection \<open>Reading a listener\<close>

lemma handle_packet_quiet:
  "mtyp p \<noteq> MSG_ATTACH \<Longrightarrow> mtyp p \<noteq> MSG_DUMP \<Longrightarrow>
     outbound (fst (handle_packet inst pid p cs)) = outbound (fst cs) \<and>
     attached (fst (handle_packet inst pid p cs)) = attached (fst cs)"
  by (simp add: handle_packet_def Let_def)

lemma handle_packet_rx [simp]: "rx (stream (fst (handle_packet inst pid p cs))) = rx (stream (fst cs))"
  by (simp add: handle_packet_def Let_def)

lemma outbound_buf [simp]: "outbound (c\<lparr>buf := b\<rparr>) = outbound c"
  by (simp add: outbound_def)

lemma packet_loop_rx [simp]: "rx (stream (fst (packet_loop inst pid cs))) = rx (stream (fst cs))"
proof (induction inst pid cs rule: packet_loop.induct)
  case (1 inst pid cs)
  then show ?case by (subst packet_loop.simps) (auto split: prod.splits option.splits)
qed

lemma packet_loop_quiet:
  "\<forall>p \<in> set (fst (pop_all (buf (fst cs)))). mtyp p \<noteq> MSG_ATTACH \<and> mtyp p \<noteq> MSG_DUMP \<Longrightarrow>
     outbound (fst (packet_loop inst pid cs)) = outbound (fst cs) \<and>
     attached (fst (packet_loop inst pid cs)) = attached (fst cs)"
proof (induction inst pid cs rule: packet_loop.induct)
  case (1 inst pid cs)
  show ?case
  proof (cases "pop_packet (buf (fst cs))")
    case (Pair q b)
    show ?thesis
    proof (cases q)
      case None
      with Pair show ?thesis by (simp add: packet_loop.simps [of inst pid cs])
    next
      case (Some p)
      have pop: "pop_all (buf (fst cs)) = (p # fst (pop_all b), snd (pop_all b))"
        using Pair Some by (simp add: pop_all.simps [of "buf (fst cs)"] case_prod_beta)
      let ?cs = "((fst cs)\<lparr>buf := b\<rparr>, snd cs)"
      from "1.prems" pop have p: "mtyp p \<noteq> MSG_ATTACH" "mtyp p \<noteq> MSG_DUMP" by simp_all
      have "packet_loop inst pid cs = packet_loop inst pid (handle_packet inst pid p ?cs)"
        using Pair Some by (simp add: packet_loop.simps [of inst pid cs])
      with "1.IH" [OF Pair [symmetric] Some] "1.prems" pop handle_packet_quiet [OF p, of inst pid ?cs]
      show ?thesis by simp
    qed
  qed
qed

lemma disconnected_packet_loop: "disconnected (fst cs) \<Longrightarrow> disconnected (fst (packet_loop inst pid cs))"
  using ev.R_packet_loop [of cs inst pid] by (simp add: evolves_def)

lemma listens_read_client: "listens [] c (fst (read_client inst pid (c, s)))"
proof (cases "read_loop (rx (stream c)) (buf c)")
  case (fields e b rs)
  let ?c = "c\<lparr>stream := (stream c)\<lparr>rx := rs\<rparr>, buf := b\<rparr>"
  let ?p = "fst (packet_loop inst pid (?c, s))"
  have o: "outbound ?c = outbound c" by (simp add: outbound_def)
  have "hears [] c ?p" if h: "attached c" "chatting c"
  proof -
    from h(2) obtain ins where ins: "buf c @ rx_bytes (rx (stream c)) = encode ins" "list_all no_replay ins"
      by (auto simp: chatting_def)
    have ok: "list_all packet_ok ins" using ins(2) by (auto simp: list_all_iff no_replay_def)
    have "b @ rx_bytes rs = pk.stream_of ins"
      using read_loop_bytes [OF fields] ins(1) by (simp add: pk.stream_of_def encode_def)
    from pk.drain_split [OF ok this] obtain qs ps' r where
      d: "pop_all b = (qs, r)" "ins = qs @ ps'" "r @ rx_bytes rs = encode ps'"
      by (auto simp: pk.stream_of_def encode_def)
    from ins(2) d(2) have q: "\<forall>p \<in> set qs. mtyp p \<noteq> MSG_ATTACH \<and> mtyp p \<noteq> MSG_DUMP" "list_all no_replay ps'"
      by (auto simp: list_all_iff no_replay_def)
    have "outbound ?p = outbound c \<and> attached ?p"
      using packet_loop_quiet [of "(?c, s)" inst pid] d(1) q(1) h(1) o by simp
    moreover have "buf ?p = r" using packet_loop_typed [of inst pid "(?c, s)"] d(1) by simp
    moreover have "rx (stream ?p) = rs" by simp
    ultimately show ?thesis
      using d(3) q(2) by (intro hearsI [of _ "[]"]) (auto simp: chatting_def)
  qed
  moreover have "disconnected c \<Longrightarrow> disconnected ?p" by (rule disconnected_packet_loop) simp
  moreover have "hears [] c (c'\<lparr>disconnected := True\<rparr>) = hears [] c c'" for c'
    by (simp add: hears_def chatting_def)
  ultimately show ?thesis
    by (simp add: read_client_def fields Let_def listens_def)
qed

lemma listens_exit_one: "listens [] c (exit_one t st c)"
proof (cases "disconnected c \<or> close_after_drain c \<noteq> None \<or> \<not> queue_fits c (exit_packet st)")
  case True
  then show ?thesis
    using send_nonblocking_outbound [of c "exit_packet st"]
    by (intro listens_silent) (auto simp: exit_one_def outbound_def)
next
  case False
  let ?c = "exit_one t st c"
  have "outbound ?c = outbound c @ encode [exit_packet st]" using False exit_one_sends by simp
  moreover have "contents [exit_packet st] = []" by (simp add: exit_packet_def)
  moreover have "attached ?c = attached c" "buf ?c = buf c" "rx (stream ?c) = rx (stream c)"
    using False by (simp_all add: exit_one_def)
  ultimately have "hears [] c ?c" if "attached c" "chatting c"
    using that unfolding hears_def chatting_def by (auto intro!: exI [of _ "[exit_packet st]"])
  then show ?thesis using False by (simp add: listens_def)
qed

lemma listens_flush: "listens [] c (deadline_one now (flush_one c))"
proof -
  have "listens [] c (flush_one c)"
    by (rule listens_silent) (simp_all add: flush_one_alt Let_def)
  moreover have "listens [] (flush_one c) (deadline_one now (flush_one c))"
    by (rule listens_silent) (auto simp: deadline_one_def split: option.splits)
  ultimately show ?thesis using listens_trans by fastforce
qed

subsection \<open>The client vector over a run\<close>

definition tracked :: "nat \<Rightarrow> ('a \<Rightarrow> 'a \<Rightarrow> bool) \<Rightarrow> 'a list \<Rightarrow> 'a list \<Rightarrow> bool" where
  "tracked n R xs ys \<longleftrightarrow>
     (\<exists>cs kept new. subseq cs xs \<and> ys = kept @ new \<and> list_all2 R cs kept \<and> length new \<le> n)"

lemma trackedI: "subseq cs xs \<Longrightarrow> list_all2 R cs kept \<Longrightarrow> length new \<le> n \<Longrightarrow> tracked n R xs (kept @ new)"
  unfolding tracked_def by blast

text \<open>The connections that \<open>accept\<close> hands out in one pass.\<close>

definition connections :: "tick_env \<Rightarrow> nat" where
  "connections env = length (takeWhile (\<lambda>a. \<not> refused a) (accept_answers env))"

lemma accept_loop_count:
  "accept_loop cfg as s = Some s' \<Longrightarrow>
     length (clients s') \<le> length (clients s) + length (takeWhile (\<lambda>a. \<not> refused a) as)"
proof (induction cfg as s rule: accept_loop.induct)
  case (3 cfg sk nb as s)
  then obtain x where "send_packet_blocking \<lparr>mtyp = MSG_PID, payload = u64_to_ne_bytes (server_pid cfg)\<rparr> sk = Some x"
    by (auto split: option.splits)
  then obtain r sk' where sent: "send_packet_blocking \<lparr>mtyp = MSG_PID, payload = u64_to_ne_bytes (server_pid cfg)\<rparr> sk = Some (r, sk')"
    by (cases x) simp
  show ?case
  proof (cases nb)
    case None
    with 3 sent "3.IH"(1) [OF sent refl None] show ?thesis by simp
  next
    case (Some e)
    let ?s = "emit [ServerLog ''accept-error'' (''set_nonblocking failed: '' @ err_msg e)] s"
    from 3 sent Some have "accept_loop cfg as ?s = Some s'" by simp
    from "3.IH"(2) [OF sent refl Some this] show ?thesis by simp
  qed
qed simp_all

lemma list_all2_subseq:
  "list_all2 R xs ys \<Longrightarrow> subseq bs ys \<Longrightarrow> \<exists>as. subseq as xs \<and> list_all2 R as bs"
proof (induction arbitrary: bs rule: list_all2_induct)
  case Nil
  then show ?case by (intro exI [of _ "[]"]) simp
next
  case (Cons x xs y ys)
  have "subseq bs ys \<or> (\<exists>bs'. bs = y # bs' \<and> subseq bs' ys)"
    using Cons.prems by (auto elim: list_emb.cases)
  then show ?case
  proof
    assume "subseq bs ys"
    with Cons.IH obtain as where "subseq as xs" "list_all2 R as bs" by blast
    then show ?thesis by (intro exI [of _ as]) auto
  next
    assume "\<exists>bs'. bs = y # bs' \<and> subseq bs' ys"
    then obtain bs' where b: "bs = y # bs'" "subseq bs' ys" by blast
    with Cons.IH obtain as where "subseq as xs" "list_all2 R as bs'" by blast
    with b Cons.hyps show ?thesis by (intro exI [of _ "x # as"]) auto
  qed
qed

lemma tracked_trans:
  assumes "\<And>a b c. R a b \<Longrightarrow> S b c \<Longrightarrow> T a c" "tracked n R xs ys" "tracked m S ys zs"
  shows "tracked (n + m) T xs zs"
proof -
  from assms(2) obtain cs kept new where 1: "subseq cs xs" "ys = kept @ new" "list_all2 R cs kept" "length new \<le> n"
    by (auto simp: tracked_def)
  from assms(3) obtain ds kept' new' where 2: "subseq ds ys" "zs = kept' @ new'" "list_all2 S ds kept'" "length new' \<le> m"
    by (auto simp: tracked_def)
  from 2(1) 1(2) obtain a b where ab: "ds = a @ b" "subseq a kept" "subseq b new" by (auto elim: subseq_appendE)
  from 2(3) ab(1) obtain ka kb where k: "kept' = ka @ kb" "list_all2 S a ka" "list_all2 S b kb"
    by (auto simp: list_all2_append1)
  from list_all2_subseq [OF 1(3) ab(2)] obtain as where as: "subseq as cs" "list_all2 R as a" by blast
  have "subseq as xs" using as(1) 1(1) by (rule subseq_order.trans)
  moreover have "list_all2 T as ka" using assms(1) as(2) k(2) by (rule list_all2_trans)
  moreover have "length (kb @ new') \<le> n + m"
    using list_emb_length [OF ab(3)] list_all2_lengthD [OF k(3)] 1(4) 2(4) by simp
  ultimately show ?thesis unfolding 2(2) k(1) append_assoc by (rule trackedI)
qed

lemma listens_then_silent:
  "list_all2 (listens d) xs ys \<Longrightarrow> list_all2 (listens []) ys zs \<Longrightarrow> list_all2 (listens d) xs zs"
  by (rule list_all2_trans [of "listens d" "listens []"]) (use listens_trans [of d _ _ "[]"] in auto)

lemma read_phase_listens: "list_all2 (listens []) (clients s) (clients (read_phase cfg at s))"
proof -
  have "list_all2 (listens []) (clients s) (clients (fold (\<lambda>i. read_client_packets (at i) pid i) is s))" for "is" pid s
  proof (induction "is" arbitrary: s)
    case Nil
    then show ?case by (simp add: list_all2_refl listens_refl)
  next
    case (Cons i "is")
    have "list_all2 (listens []) (clients s) (clients (read_client_packets (at i) pid i s))"
    proof (cases "i < length (clients s)")
      case True
      then show ?thesis
        by (auto simp: list_all2_conv_all_nth nth_list_update listens_read_client listens_refl)
    qed (simp add: list_update_beyond list_all2_refl listens_refl)
    from listens_then_silent [OF this Cons.IH] show ?case by simp
  qed
  then show ?thesis by (simp add: read_phase_def)
qed

lemma pass_listens:
  assumes "server_tick cfg env s = Some r" "length (snapshot (history_of s)) \<le> HISTORY_CAP"
  obtains d where "rx_bytes (m_rx s) = d @ rx_bytes (m_rx (after r))"
    "snapshot (history_of (after r)) = last_n HISTORY_CAP (snapshot (history_of s) @ d)"
    "tracked (connections env) (listens d) (clients s) (clients (after r))"
proof -
  obtain s1 where acc: "accept_loop cfg (accept_answers env)
      (poll_shutdown cfg (shutdown_requested env) s) = Some s1"
    and r: "r = finish (close_phase (now_at env) (to_exit cfg env s1))"
    using assms(1) by (rule tick_stages)
  from accept_loop_fields [OF acc] obtain new where
    a: "clients s1 = clients s @ new" "history_of s1 = history_of s" "m_rx s1 = m_rx s" by auto
  let ?d = "taken s1"
  have "list_all2 (listens ?d) (clients s1) (clients (pty_phase s1))"
  proof (cases "read_pty s1")
    case True
    have "\<forall>d \<in> set (pty_pieces (m_rx s1)). length d \<le> MAX_PAYLOAD" using pty_pieces_bound by blast
    from listens_broadcast [OF this] True show ?thesis
      by (simp add: taken_def pty_phase_def pty_loop_fields list_all2_conv_all_nth)
  qed (simp add: taken_def pty_phase_def list_all2_refl listens_refl)
  moreover let ?w = "wait_phase cfg (wait_answer env) (pty_phase s1)"
  have "list_all2 (listens []) (clients (pty_phase s1)) (clients (read_phase cfg (read_at env) ?w))"
    using read_phase_listens [of ?w cfg "read_at env"] by simp
  moreover have "list_all2 (listens []) (clients (read_phase cfg (read_at env) ?w)) (clients (to_exit cfg env s1))"
    by (auto simp: to_exit_def list_all2_conv_all_nth exit_phase_nth listens_exit_one listens_refl split: option.split)
  moreover let ?f = "\<lambda>c. deadline_one (now_at env) (flush_one c)"
  have "list_all2 (listens []) (clients (to_exit cfg env s1)) (map ?f (clients (to_exit cfg env s1)))"
    by (simp add: list_all2_conv_all_nth listens_flush)
  moreover have len: "length (clients (to_exit cfg env s1)) = length (clients s1)"
    using to_exit_clients [of s1 cfg env] by (simp add: list_all2_lengthD)
  ultimately have "list_all2 (listens ?d) (clients s1) (map ?f (clients (to_exit cfg env s1)))"
    by (blast intro: listens_then_silent)
  then obtain k n where k: "map ?f (clients (to_exit cfg env s1)) = k @ n" "list_all2 (listens ?d) (clients s) k"
    by (auto simp: a(1) list_all2_append1)
  have "length n = length new" using arg_cong [OF k(1), of length] list_all2_lengthD [OF k(2)] len a(1) by simp
  then have n: "length (filter (\<lambda>c. \<not> disconnected c) n) \<le> connections env"
    using accept_loop_count [OF acc] a(1) length_filter_le [of "\<lambda>c. \<not> disconnected c" n] by (simp add: connections_def)
  have "clients (after r) = filter (\<lambda>c. \<not> disconnected c) k @ filter (\<lambda>c. \<not> disconnected c) n"
    unfolding r using k(1) by (simp add: close_phase_def comp_def)
  moreover obtain as where "subseq as (clients s)" "list_all2 (listens ?d) as (filter (\<lambda>c. \<not> disconnected c) k)"
    using list_all2_subseq [OF k(2) subseq_filter_left] by blast
  ultimately have "tracked (connections env) (listens ?d) (clients s) (clients (after r))"
    using n by (auto intro: trackedI)
  moreover have "rx_bytes (m_rx s) = ?d @ rx_bytes (m_rx (after r))"
    using pty_phase_bytes [of s1] a(3) by (simp add: r to_exit_def)
  moreover have "snapshot (history_of (after r)) = last_n HISTORY_CAP (snapshot (history_of s) @ ?d)"
    using pty_phase_history [of s1] a(2) assms(2) by (simp add: r to_exit_def taken_def concat_pty_pieces)
  ultimately show thesis by (intro that)
qed

lemma run_listens:
  "server_loop cfg envs s = Running s' \<Longrightarrow> length (snapshot (history_of s)) \<le> HISTORY_CAP \<Longrightarrow>
     \<exists>d. rx_bytes (m_rx s) = d @ rx_bytes (m_rx s') \<and>
       snapshot (history_of s') = last_n HISTORY_CAP (snapshot (history_of s) @ d) \<and>
       tracked (sum_list (map connections envs)) (listens d) (clients s) (clients s')"
proof (induction envs arbitrary: s)
  case Nil
  have "tracked 0 (listens []) (clients s) (clients s @ [])"
    by (rule trackedI [OF subseq_order.refl]) (simp_all add: list_all2_refl listens_refl)
  with Nil show ?case by (intro exI [of _ "[]"]) simp
next
  case (Cons env envs)
  then obtain s1 where t: "server_tick cfg env s = Some (Continue s1)" "server_loop cfg envs s1 = Running s'"
    by (auto split: option.splits tick_result.splits)
  from t(1) Cons.prems(2) obtain d where d: "rx_bytes (m_rx s) = d @ rx_bytes (m_rx s1)"
    "snapshot (history_of s1) = last_n HISTORY_CAP (snapshot (history_of s) @ d)"
    "tracked (connections env) (listens d) (clients s) (clients s1)"
    by (rule pass_listens) simp
  from d(2) have "length (snapshot (history_of s1)) \<le> HISTORY_CAP" by simp
  from Cons.IH [OF t(2) this] obtain d' where d': "rx_bytes (m_rx s1) = d' @ rx_bytes (m_rx s')"
    "snapshot (history_of s') = last_n HISTORY_CAP (snapshot (history_of s1) @ d')"
    "tracked (sum_list (map connections envs)) (listens d') (clients s1) (clients s')" by blast
  from tracked_trans [OF listens_trans d(3) d'(3)] have
    "tracked (connections env + sum_list (map connections envs)) (listens (d @ d')) (clients s) (clients s')" .
  with d d' show ?case
    by (intro exI [of _ "d @ d'"]) (simp add: last_n_last_n_append)
qed

lemma connected_tick:
  "server_tick cfg env s = Some r \<Longrightarrow> \<forall>c \<in> set (clients (after r)). \<not> disconnected c"
  using tick_client_origin by blast

interpretation connected: pass_invariant "\<lambda>s. \<forall>c \<in> set (clients s). \<not> disconnected c" cfg "\<lambda>env. True" for cfg
  by unfold_locales (rule connected_tick)

lemma run_output:
  assumes "server_loop cfg envs s = Running s'"
    and "length (snapshot (history_of s)) \<le> HISTORY_CAP" and "list_all (\<lambda>c. \<not> disconnected c) (clients s)"
  shows "\<exists>d. rx_bytes (m_rx s) = d @ rx_bytes (m_rx s') \<and>
    snapshot (history_of s') = last_n HISTORY_CAP (snapshot (history_of s) @ d) \<and>
    (\<exists>cs kept new. subseq cs (clients s) \<and> clients s' = kept @ new \<and>
       length new \<le> sum_list (map connections envs) \<and>
       list_all2 (\<lambda>c c'. attached c \<and> chatting c \<longrightarrow>
         (\<exists>ps. list_all packet_ok ps \<and> outbound c' = outbound c @ encode ps \<and> contents ps = d)) cs kept)"
proof -
  obtain d cs kept new where d: "rx_bytes (m_rx s) = d @ rx_bytes (m_rx s')"
    "snapshot (history_of s') = last_n HISTORY_CAP (snapshot (history_of s) @ d)"
    "subseq cs (clients s)" "clients s' = kept @ new" "list_all2 (listens d) cs kept"
    "length new \<le> sum_list (map connections envs)"
    using run_listens [OF assms(1,2)] by (auto simp: tracked_def)
  have "\<forall>c \<in> set (clients s'). \<not> disconnected c"
    using assms(1) by (rule connected.inv_running) (use assms(3) in \<open>simp_all add: list_all_iff\<close>)
  with d(4) have "\<forall>c \<in> set kept. \<not> disconnected c" by simp
  with d(5) have "list_all2 (\<lambda>c c'. attached c \<and> chatting c \<longrightarrow>
      (\<exists>ps. list_all packet_ok ps \<and> outbound c' = outbound c @ encode ps \<and> contents ps = d)) cs kept"
    by (auto simp: list_all2_conv_all_nth listens_def hears_def)
  with d show ?thesis by blast
qed

subsection \<open>Property\<close>

text \<open>C7: A run of the server refines one byte string: there is the output \<open>d\<close> taken from the terminal in the
  run (nothing skipped) such that the history is the last \<open>HISTORY_CAP\<close> bytes of the history before
  and \<open>d\<close>, and every attached client that the server still has (the kept ones are a
  subsequence of those before, in their order, and the new ones, no more than connections were accepted, come behind them) has been sent, in
  whole packets and without a gap, exactly \<open>d\<close> as content, however the passes, the reads and the
  writes cut it, and whatever the client typed or resized meanwhile.\<close>

theorem run_delivers_output:
  assumes "server_loop cfg envs s = Running s'"
    and "length (snapshot (history_of s)) \<le> HISTORY_CAP" and "list_all (\<lambda>c. \<not> disconnected c) (clients s)"
  shows "\<exists>d. rx_bytes (m_rx s) = d @ rx_bytes (m_rx s') \<and>
    snapshot (history_of s') = last_n HISTORY_CAP (snapshot (history_of s) @ d) \<and>
    (\<exists>cs kept new. subseq cs (clients s) \<and> clients s' = kept @ new \<and>
       length new \<le> sum_list (map connections envs) \<and>
       list_all2 (\<lambda>c c'. attached c \<and> chatting c \<longrightarrow>
         (\<exists>ps. list_all packet_ok ps \<and> outbound c' = outbound c @ encode ps \<and> contents ps = d)) cs kept)"
  using run_output [OF assms] .

definition talking :: server where
  "talking = (server_init True [Bytes [104, 105], ReadErr eagain] [])
     \<lparr>clients := [(new_client \<lparr>rx = [], tx = [Count 99], wire = []\<rparr>)\<lparr>attached := True\<rparr>]\<rparr>"

definition talked :: server where
  "talked = (server_init True [] [])
     \<lparr>clients := [(new_client \<lparr>rx = [], tx = [], wire = packet_bytes (content [104, 105])\<rparr>)\<lparr>attached := True\<rparr>],
      history_of := history_append history_new [104, 105]\<rparr>"

lemma talking_run: "server_loop demo_cfg [quiet_env] talking = Running talked"
proof -
  have "broadcast_one [104, 105] ((new_client \<lparr>rx = [], tx = [Count 99], wire = []\<rparr>)\<lparr>attached := True\<rparr>) =
     (new_client \<lparr>rx = [], tx = [], wire = packet_bytes (content [104, 105])\<rparr>)\<lparr>attached := True\<rparr>"
    by (simp add: broadcast_one_alt Let_def send_nonblocking_cases queue_fits_def new_client_def content_def
        SEND_QUEUE_CAP_def flush_at_once)
  then show ?thesis
    by (simp add: server_tick_def poll_shutdown_def quiet_env_def talking_def pty_phase_def pty_loop.simps server_init_def
        eagain_def MAX_PAYLOAD_def broadcast_content_def wait_phase_def demo_cfg_def read_phase_def read_client_packets_def
        read_client_idle exit_phase_def close_phase_def flush_one_def try_flush_client_def deadline_one_def
        finish_def new_client_def talked_def)
qed

theorem run_delivers_output_witness:
  "\<exists>d. rx_bytes (m_rx talking) = d @ rx_bytes (m_rx talked) \<and>
     snapshot (history_of talked) = last_n HISTORY_CAP d"
  using run_delivers_output [OF talking_run]
  by (auto simp: talking_def server_init_def new_client_def HISTORY_CAP_def)

end
