(* ===== verification/ClientCalls.thy ===== *)
theory ClientCalls
  imports Outbound
begin

text \<open>
  What the client commands are made of: blocking calls on the connection to the server, in
  sequence, where the \<open>?\<close> operator of the source ends the command at the first error. A call
  that the peer never answers has not returned (\<open>None\<close>).
\<close>

type_synonym ('c, 'a) call = "'c \<Rightarrow> ('a io_result \<times> 'c) option"

definition return_ok :: "'a \<Rightarrow> ('c, 'a) call" where
  "return_ok a s = Some (Inr a, s)"

definition and_then :: "('c, 'a) call \<Rightarrow> ('a \<Rightarrow> ('c, 'b) call) \<Rightarrow> ('c, 'b) call" where
  "and_then m f s =
     (case m s of
        None \<Rightarrow> None
      | Some (Inl e, s') \<Rightarrow> Some (Inl e, s')
      | Some (Inr a, s') \<Rightarrow> f a s')"

lemma and_then_ok [simp]: "m s = Some (Inr a, s') \<Longrightarrow> and_then m f s = f a s'"
  by (simp add: and_then_def)

lemma and_then_return [simp]: "and_then (return_ok a) f = f a"
  by (simp add: and_then_def return_ok_def fun_eq_iff)

lemma and_then_okE:
  assumes "and_then m f s = Some (Inr b, s'')"
  obtains a s' where "m s = Some (Inr a, s')" "f a s' = Some (Inr b, s'')"
  using assms by (auto simp: and_then_def split: option.splits sum.splits)

text \<open>Receiving takes a packet's bytes from the front of what is readable and writes nothing.\<close>

lemma recv_packet_ok:
  "recv_packet_blocking s = Some (Inr p, s') \<Longrightarrow>
     packet_ok p \<and> readable (rx s) = packet_bytes p @ readable (rx s') \<and> wire s' = wire s"
  using recv_sound [of s p s'] by (simp add: pop_packet_iff)

lemma recv_packet_wire: "recv_packet_blocking s = Some (r, s') \<Longrightarrow> wire s' = wire s \<and> tx s' = tx s"
  by (auto simp: recv_packet_blocking_def Let_def split: option.splits sum.splits if_splits)

lemma recv_packet_shrinks:
  "recv_packet_blocking s = Some (Inr p, s') \<Longrightarrow> length (readable (rx s')) < length (readable (rx s))"
  by (auto dest: recv_packet_ok)

lemma recv_packet_next:
  "packet_ok p \<Longrightarrow> readable (rx s) = packet_bytes p @ rest \<Longrightarrow>
     \<exists>s'. recv_packet_blocking s = Some (Inr p, s') \<and> readable (rx s') = rest"
  by (simp add: recv_complete pop_packet_bytes)

text \<open>Sending writes only, so it leaves what is readable alone.\<close>

lemma send_packet_ok:
  "send_packet_blocking p s = Some (Inr (), s') \<Longrightarrow> wire s' = wire s @ packet_bytes p \<and> rx s' = rx s"
  unfolding send_packet_blocking_def by (rule write_all_ok)

end
