(* ===== verification/Paths.thy ===== *)
theory Paths
  imports Prelude
begin

text \<open>
  Paths as strings, with the operations of \<open>std::path\<close> the source uses; the directories \<open>create_dir_all\<close>
  makes for a path; and what the server's log consists of: its path (\<open>derive_server_log_path\<close>), its time
  stamps (\<open>iso_utc_now\<close>) and its lines. A broken-down time is what \<open>localtime_r\<close> or \<open>gmtime_r\<close>
  filled in, \<open>None\<close> if they failed.
\<close>

subsection \<open>Paths\<close>

text \<open>\<open>PathBuf::join\<close> and \<open>Path::parent\<close>.\<close>

definition path_join :: "string \<Rightarrow> string \<Rightarrow> string" where
  "path_join a b =
     (if prefix ''/'' b then b
      else if a = [] \<or> last a = CHR ''/'' then a @ b
      else a @ ''/'' @ b)"

definition strip_slashes :: "string \<Rightarrow> string" where
  "strip_slashes p = rev (dropWhile (\<lambda>c. c = CHR ''/'') (rev p))"

definition path_parent :: "string \<Rightarrow> string option" where
  "path_parent p =
     (let q = strip_slashes p
      in if q = [] then None
         else let d = strip_slashes (rev (dropWhile (\<lambda>c. c \<noteq> CHR ''/'') (rev q)))
              in Some (if d = [] \<and> prefix ''/'' p then ''/'' else d))"

lemma strip_slashes_length: "length (strip_slashes p) \<le> length p"
  using length_dropWhile_le [of "\<lambda>c. c = CHR ''/''" "rev p"] by (simp add: strip_slashes_def)

lemma strip_slashes_id: "p \<noteq> [] \<Longrightarrow> last p \<noteq> CHR ''/'' \<Longrightarrow> strip_slashes p = p"
  by (cases p rule: rev_cases) (simp_all add: strip_slashes_def)

lemma strip_slashes_last: "strip_slashes p \<noteq> [] \<Longrightarrow> last (strip_slashes p) \<noteq> CHR ''/''"
  using hd_dropWhile [of "\<lambda>c. c = CHR ''/''" "rev p"] by (simp add: strip_slashes_def last_rev)

lemma path_parent_shorter: "path_parent p = Some d \<Longrightarrow> length d < length p"
proof -
  assume d: "path_parent p = Some d"
  let ?q = "strip_slashes p"
  let ?r = "rev (dropWhile (\<lambda>c. c \<noteq> CHR ''/'') (rev ?q))"
  from d have q: "?q \<noteq> []" and d': "d = (if strip_slashes ?r = [] \<and> prefix ''/'' p then ''/'' else strip_slashes ?r)"
    by (auto simp: path_parent_def Let_def split: if_splits)
  from q strip_slashes_last [OF q] have "length ?r < length ?q"
    by (cases "rev ?q") (auto simp: last_rev [symmetric] hd_rev le_imp_less_Suc length_dropWhile_le split: if_splits)
  then have r: "length (strip_slashes ?r) < length ?q" using strip_slashes_length [of ?r] by simp
  have "1 < length p" if "prefix ''/'' p"
  proof (cases p)
    case (Cons c cs)
    with that q show ?thesis by (cases cs) (auto simp: strip_slashes_def)
  qed (use that in simp)
  with d' r strip_slashes_length [of p] show ?thesis by auto
qed

text \<open>The path and every directory above it that its text names.\<close>

function ancestors :: "string \<Rightarrow> string list" where
  "ancestors p =
     (if p = [] then []
      else p # (case path_parent p of None \<Rightarrow> [] | Some d \<Rightarrow> ancestors d))"
  by pat_completeness auto
termination
  by (relation "measure length") (auto dest: path_parent_shorter)

declare ancestors.simps [simp del]

lemma ancestors_length: "a \<in> set (ancestors p) \<Longrightarrow> length a \<le> length p"
proof (induction p rule: ancestors.induct)
  case (1 p)
  show ?case
  proof (cases "path_parent p")
    case (Some d)
    with 1 path_parent_shorter [OF Some] show ?thesis
      by (auto simp: ancestors.simps [of p] split: if_splits)
  qed (use 1 in \<open>auto simp: ancestors.simps [of p] split: if_splits\<close>)
qed

subsection \<open>Time stamps\<close>

record tm =
  tm_year :: int
  tm_mon :: int
  tm_mday :: int
  tm_hour :: int
  tm_min :: int
  tm_sec :: int

text \<open>Rust's \<open>{:0w}\<close> for an integer: the sign counts, the zeros come behind it.\<close>

definition pad :: "nat \<Rightarrow> int \<Rightarrow> string" where
  "pad w i =
     (let s = show_nat (nat \<bar>i\<bar>)
      in if i < 0 then ''-'' @ replicate (w - 1 - length s) (CHR ''0'') @ s
         else replicate (w - length s) (CHR ''0'') @ s)"

definition iso_minutes :: "tm \<Rightarrow> string" where
  "iso_minutes t =
     pad 4 (tm_year t + 1900) @ ''-'' @ pad 2 (tm_mon t + 1) @ ''-'' @ pad 2 (tm_mday t) @ ''T'' @
     pad 2 (tm_hour t) @ '':'' @ pad 2 (tm_min t)"

definition format_iso_local :: "tm option \<Rightarrow> string" where
  "format_iso_local t = (case t of None \<Rightarrow> ''unknown'' | Some x \<Rightarrow> iso_minutes x)"

definition iso_utc_now :: "tm option \<Rightarrow> string" where
  "iso_utc_now t =
     (case t of None \<Rightarrow> ''unknown'' | Some x \<Rightarrow> iso_minutes x @ '':'' @ pad 2 (tm_sec x) @ ''Z'')"

subsection \<open>The server log\<close>

definition file_name :: "string \<Rightarrow> string option" where
  "file_name p =
     (let n = rev (takeWhile (\<lambda>c. c \<noteq> CHR ''/'') (rev (strip_slashes p)))
      in if n = [] \<or> n = ''..'' then None else Some n)"

definition derive_server_log_path :: "string \<Rightarrow> string" where
  "derive_server_log_path p =
     (case file_name p of
        Some s \<Rightarrow> path_join (case path_parent p of Some d \<Rightarrow> d | None \<Rightarrow> []) (s @ ''.log'')
      | None \<Rightarrow> path_join p ''lich.log'')"

definition server_log_line :: "tm option \<Rightarrow> nat \<Rightarrow> string \<Rightarrow> string \<Rightarrow> string" where
  "server_log_line now pid kind msg =
     iso_utc_now now @ '' '' @ show_nat pid @ '' '' @ kind @ '' '' @ msg @ [CHR 0x0A]"

lemma last_component:
  assumes "CHR ''/'' \<notin> set f" and "f \<noteq> []" and "base \<noteq> []" and "last base \<noteq> CHR ''/''"
  shows "path_parent (path_join base f) = Some base \<and> (f \<noteq> ''..'' \<longrightarrow> file_name (path_join base f) = Some f)"
proof -
  have p: "path_join base f = base @ ''/'' @ f"
    using assms by (cases f) (auto simp: path_join_def)
  have l: "last f \<noteq> CHR ''/''" using assms(1,2) last_in_set by metis
  have q: "strip_slashes (base @ ''/'' @ f) = base @ ''/'' @ f"
    using l assms(2) by (intro strip_slashes_id) auto
  have d: "dropWhile (\<lambda>c. c \<noteq> CHR ''/'') (rev f @ ''/'' @ rev base) = ''/'' @ rev base"
    "takeWhile (\<lambda>c. c \<noteq> CHR ''/'') (rev f @ ''/'' @ rev base) = rev f"
    using assms(1) by (subst dropWhile_append2 takeWhile_append2; auto)+
  have "strip_slashes (base @ ''/'') = base"
    using assms(3,4) by (cases base rule: rev_cases) (simp_all add: strip_slashes_def)
  then show ?thesis
    using q d assms(2,3) unfolding p by (simp add: path_parent_def file_name_def Let_def)
qed

lemma file_name_join:
  assumes "CHR ''/'' \<notin> set f" "f \<noteq> []" "f \<noteq> ''..''"
  shows "file_name (path_join d f) = Some f"
proof -
  have l: "last f \<noteq> CHR ''/''" "\<not> prefix ''/'' f" using assms(1,2) last_in_set by (metis, cases f, auto)
  obtain e where e: "path_join d f = e @ f" "e = [] \<or> last e = CHR ''/''"
    using l(2) by (cases "d = [] \<or> last d = CHR ''/''") (auto simp: path_join_def)
  have "strip_slashes (e @ f) = e @ f" using l(1) assms(2) by (intro strip_slashes_id) auto
  moreover have "takeWhile (\<lambda>c. c \<noteq> CHR ''/'') (rev (e @ f)) = rev f"
    using assms(1) e(2) takeWhile_append2 [of "rev f" "\<lambda>c. c \<noteq> CHR ''/''"]
    by (cases e rule: rev_cases) (fastforce simp: takeWhile_eq_all_conv)+
  ultimately show ?thesis using assms(2,3) e(1) by (simp add: file_name_def)
qed

text \<open>The log is never the socket itself.\<close>

lemma log_path_differs [simp]: "derive_server_log_path p \<noteq> p"
proof (cases "file_name p")
  case None
  then show ?thesis by (simp add: derive_server_log_path_def path_join_def)
next
  case (Some n)
  then have "n = rev (takeWhile (\<lambda>c. c \<noteq> CHR ''/'') (rev (strip_slashes p)))" by (auto simp: file_name_def Let_def split: if_splits)
  then have "CHR ''/'' \<notin> set n" using set_takeWhileD by fastforce
  then have "file_name (path_join d (n @ ''.log'')) = Some (n @ ''.log'')" for d
    by (intro file_name_join) (auto simp: append_eq_Cons_conv)
  with Some show ?thesis by (simp add: derive_server_log_path_def) (metis append_self_conv option.inject list.distinct(1))
qed

end
