(* ===== verification/Sessions.thy ===== *)
theory Sessions
  imports ClientCalls Server Paths
begin

text \<open>
  Sessions as the file system sees them: \<open>socket_path\<close>, \<open>socket_base_dir\<close>, \<open>hostname\<close>,
  \<open>connect_session\<close>, \<open>session_alive\<close>, \<open>create_session\<close> with \<open>read_startup_status\<close>, and the
  server's side of it, \<open>run_server\<close>, \<open>SocketGuard\<close> and \<open>server_log\<close>. The \<open>world\<close> is the part of the system the
  processes share: which socket or regular file each path names, with its text (\<open>fs\<close>), which paths are
  directories, which servers listen, and the command each was started for. \<open>host\<close> is
  what the environment answers; \<open>peer i\<close> is what a connection to server \<open>i\<close> delivers and takes.
  As \<open>unix(7)\<close> documents, connecting to a path that is not a listening socket, or not a socket at
  all, is refused.
\<close>

datatype node = SocketFile nat | RegularFile string

datatype sys_effect =
    MkdirAll string
  | Chmod string nat
  | Unlink string

record world =
  fs :: "string \<Rightarrow> node option"
  dirs :: "string set"
  listening :: "nat list"
  next_id :: nat
  commands :: "nat \<Rightarrow> string list option"
  acts :: "sys_effect list"

text \<open>
  One call of \<open>server_log\<close>: how many bytes of the line the file system takes, \<open>None\<close> if it does not open the
  file, and the broken-down time.
\<close>

record log_call =
  log_opened :: "nat option"
  log_clock :: "tm option"

record host =
  envvar :: "string \<Rightarrow> string option"
  uid :: nat
  cwd :: "string io_result"
  gethostname :: "bytes option"
  mkdir_err :: "string \<Rightarrow> io_error option"
  connect_err :: "string \<Rightarrow> io_error option"
  bind_err :: "string \<Rightarrow> io_error option"
  peer :: "nat \<Rightarrow> sock"
  forked_pid :: nat
  start_call :: log_call

definition act :: "sys_effect \<Rightarrow> world \<Rightarrow> world" where
  "act e w = w\<lparr>acts := acts w @ [e]\<rparr>"

subsection \<open>Directories and paths\<close>

text \<open>\<open>create_dir_all\<close>: \<open>mkdir_err\<close> is its answer; if that is success, the path and all above it are directories.\<close>

definition create_dir_all :: "host \<Rightarrow> string \<Rightarrow> world \<Rightarrow> io_error option \<times> world" where
  "create_dir_all h d w =
     (case mkdir_err h d of
        Some e \<Rightarrow> (Some e, w)
      | None \<Rightarrow> (None, act (MkdirAll d) (w\<lparr>dirs := dirs w \<union> set (filter (\<lambda>a. fs w a = None) (ancestors d))\<rparr>)))"

definition hostname :: "host \<Rightarrow> string" where
  "hostname h =
     (case gethostname h of
        Some b \<Rightarrow> chars_of (takeWhile (\<lambda>x. x \<noteq> 0) b)
      | None \<Rightarrow> ''localhost'')"

definition candidates :: "host \<Rightarrow> string list" where
  "candidates h =
     (let user = (case envvar h ''USER'' of Some u \<Rightarrow> u | None \<Rightarrow> show_nat (uid h))
      in map the (filter (\<lambda>x. x \<noteq> None)
           [envvar h ''ABDUCO_SOCKET_DIR'',
            map_option (\<lambda>d. path_join d ''.lich'') (envvar h ''HOME''),
            map_option (\<lambda>t. path_join (path_join t ''lich'') user) (envvar h ''TMPDIR''),
            Some (path_join (path_join ''/tmp'' ''lich'') user)]))"

fun first_dir :: "host \<Rightarrow> string list \<Rightarrow> world \<Rightarrow> string io_result \<times> world" where
  "first_dir h [] w = (Inl (IoError NotFound ''no socket directory''), w)"
| "first_dir h (d # ds) w =
     (case create_dir_all h d w of
        (None, w1) \<Rightarrow> (Inr d, act (Chmod d 448) w1)
      | (Some e, w1) \<Rightarrow> first_dir h ds w1)"

definition socket_base_dir :: "host \<Rightarrow> world \<Rightarrow> string io_result \<times> world" where
  "socket_base_dir h w = first_dir h (candidates h) w"

definition socket_path :: "host \<Rightarrow> string \<Rightarrow> world \<Rightarrow> string io_result \<times> world" where
  "socket_path h name w =
     (if prefix ''/'' name then (Inr name, w)
      else if prefix ''./'' name \<or> prefix ''../'' name
      then (map_sum id (\<lambda>d. path_join d name) (cwd h), w)
      else case socket_base_dir h w of
        (Inl e, w') \<Rightarrow> (Inl e, w')
      | (Inr base, w') \<Rightarrow> (Inr (path_join base (name @ ''@'' @ hostname h)), w'))"

subsection \<open>Connecting\<close>

definition unix_connect :: "host \<Rightarrow> string \<Rightarrow> world \<Rightarrow> nat io_result" where
  "unix_connect h p w =
     (case connect_err h p of
        Some e \<Rightarrow> Inl e
      | None \<Rightarrow>
          (case fs w p of
             None \<Rightarrow>
               if p \<in> dirs w then Inl (IoError ConnectionRefused ''Connection refused'')
               else Inl (IoError NotFound ''No such file or directory'')
           | Some (SocketFile i) \<Rightarrow>
               if i \<in> set (listening w) then Inr i
               else Inl (IoError ConnectionRefused ''Connection refused'')
           | Some (RegularFile t) \<Rightarrow> Inl (IoError ConnectionRefused ''Connection refused'')))"

text \<open>\<open>fs::remove_file\<close>, whose result the source always ignores: it does not remove directories.\<close>

definition remove_file :: "string \<Rightarrow> world \<Rightarrow> world" where
  "remove_file p w =
     (if fs w p = None then w else act (Unlink p) (w\<lparr>fs := (fs w)(p := None)\<rparr>))"

definition connect_session :: "host \<Rightarrow> string \<Rightarrow> world \<Rightarrow> nat io_result \<times> world" where
  "connect_session h name w =
     (case socket_path h name w of
        (Inl e, w') \<Rightarrow> (Inl e, w')
      | (Inr p, w') \<Rightarrow>
          (case unix_connect h p w' of
             Inr i \<Rightarrow> (Inr i, w')
           | Inl e \<Rightarrow> (Inl e, if err_kind e = ConnectionRefused then remove_file p w' else w')))"

text \<open>\<open>None\<close> as the first component: the server never greets.\<close>

definition session_alive :: "host \<Rightarrow> string \<Rightarrow> world \<Rightarrow> bool option \<times> world" where
  "session_alive h name w =
     (case connect_session h name w of
        (Inl e, w') \<Rightarrow> (Some False, w')
      | (Inr i, w') \<Rightarrow>
          ((case recv_packet_blocking (peer h i) of
              None \<Rightarrow> None
            | Some (Inl e, s) \<Rightarrow> Some False
            | Some (Inr pkt, s) \<Rightarrow> Some (mtyp pkt = MSG_PID)), w'))"

subsection \<open>Creating: up to the listening socket\<close>

definition unix_bind :: "host \<Rightarrow> string \<Rightarrow> world \<Rightarrow> nat io_result \<times> world" where
  "unix_bind h p w =
     (case bind_err h p of
        Some e \<Rightarrow> (Inl e, w)
      | None \<Rightarrow>
          if fs w p \<noteq> None \<or> p \<in> dirs w then (Inl (IoError AddrInUse ''Address already in use''), w)
          else (Inr (next_id w),
                w\<lparr>fs := (fs w)(p \<mapsto> SocketFile (next_id w)), listening := next_id w # listening w,
                  next_id := Suc (next_id w)\<rparr>))"

text \<open>From the second \<open>socket_path\<close> to the \<open>chmod\<close>: the path bound and the new listener.\<close>

definition claim_path :: "host \<Rightarrow> string \<Rightarrow> world \<Rightarrow> (string \<times> nat) io_result \<times> world" where
  "claim_path h name w =
     (case socket_path h name w of
        (Inl e, w1) \<Rightarrow> (Inl e, w1)
      | (Inr p, w1) \<Rightarrow>
          (case (case path_parent p of None \<Rightarrow> (None, w1) | Some d \<Rightarrow> create_dir_all h d w1) of
             (Some e, w2) \<Rightarrow> (Inl e, w2)
           | (None, w2) \<Rightarrow>
               (case unix_bind h p (remove_file p w2) of
                  (Inl e, w3) \<Rightarrow> (Inl e, w3)
                | (Inr i, w3) \<Rightarrow> (Inr (p, i), act (Chmod p 384) w3))))"

subsection \<open>Creating: the startup pipe and the parent\<close>

function startup_loop :: "bytes \<Rightarrow> read_answer list \<Rightarrow> (bytes io_result \<times> read_answer list) option" where
  "startup_loop b rs =
     (case sys_read 256 rs of
        None \<Rightarrow> None
      | Some (Inr bs, rs') \<Rightarrow> if bs = [] then Some (Inr b, rs') else startup_loop (b @ bs) rs'
      | Some (Inl e, rs') \<Rightarrow>
          if err_kind e = Interrupted then startup_loop b rs' else Some (Inl e, rs'))"
  by pat_completeness auto
termination
  by (relation "measure (\<lambda>(b, rs). rx_size rs)") (auto dest: sys_read_shrinks)

declare startup_loop.simps [simp del]

definition is_space :: "char \<Rightarrow> bool" where
  "is_space c \<longleftrightarrow> (let n = of_char c :: nat in n = 32 \<or> 9 \<le> n \<and> n \<le> 13)"

definition trim_end :: "string \<Rightarrow> string" where
  "trim_end s = rev (dropWhile is_space (rev s))"

definition read_startup_status :: "read_answer list \<Rightarrow> unit io_result option" where
  "read_startup_status rs =
     (case startup_loop [] rs of
        None \<Rightarrow> None
      | Some (Inl e, rs') \<Rightarrow> Some (Inl e)
      | Some (Inr b, rs') \<Rightarrow>
          Some (if b = [] then Inr ()
                else Inl (IoError Other (trim_end (chars_of b)))))"

text \<open>
  \<open>server_log\<close> with the static \<open>SERVER_LOG_PATH\<close>: the line is appended to the file, which is made if there is
  none; a socket or a directory cannot be opened, and every error is ignored.
\<close>

definition server_log :: "string option \<Rightarrow> log_call \<Rightarrow> nat \<Rightarrow> string \<times> string \<Rightarrow> world \<Rightarrow> world" where
  "server_log log_path k pid entry w =
     (case log_path of
        None \<Rightarrow> w
      | Some p \<Rightarrow>
          (case (log_opened k, fs w p) of
             (Some n, None) \<Rightarrow>
               if p \<in> dirs w then w
               else w\<lparr>fs := (fs w)(p \<mapsto> RegularFile (take n (server_log_line (log_clock k) pid (fst entry) (snd entry))))\<rparr>
           | (Some n, Some (RegularFile old)) \<Rightarrow>
               w\<lparr>fs := (fs w)(p \<mapsto> RegularFile (old @ take n (server_log_line (log_clock k) pid (fst entry) (snd entry))))\<rparr>
           | x \<Rightarrow> w))"

text \<open>
  The forked process up to \<open>run_server\<close>: it sets \<open>SERVER_LOG_PATH\<close> and logs its start. It holds the startup
  pipe open meanwhile, so that the parent returns only after this.
\<close>

definition start_entry :: "nat \<Rightarrow> string \<Rightarrow> string \<times> string" where
  "start_entry pid name = (''start'', ''pid='' @ show_nat pid @ '' session='' @ name)"

definition server_begins :: "host \<Rightarrow> string \<Rightarrow> string list \<Rightarrow> string \<Rightarrow> nat \<Rightarrow> world \<Rightarrow> world" where
  "server_begins h name cmd p i w =
     server_log (Some (derive_server_log_path p)) (start_call h) (forked_pid h) (start_entry (forked_pid h) name)
       (w\<lparr>commands := (commands w)(i \<mapsto> cmd)\<rparr>)"

text \<open>What \<open>pipe\<close> and \<open>fork\<close> answer, and then what the parent reads from the pipe.\<close>

datatype launch = LaunchFails io_error | Forked "read_answer list"

definition create_session ::
  "host \<Rightarrow> string \<Rightarrow> string list \<Rightarrow> launch \<Rightarrow> world \<Rightarrow> unit io_result option \<times> world" where
  "create_session h name cmd l w =
     (case session_alive h name w of
        (None, w1) \<Rightarrow> (None, w1)
      | (Some True, w1) \<Rightarrow> (Some (Inl (IoError AddrInUse ''session exists'')), w1)
      | (Some False, w1) \<Rightarrow>
          (case claim_path h name w1 of
             (Inl e, w2) \<Rightarrow> (Some (Inl e), w2)
           | (Inr (p, i), w2) \<Rightarrow>
               (case l of
                  LaunchFails e \<Rightarrow> (Some (Inl e), w2\<lparr>listening := removeAll i (listening w2)\<rparr>)
                | Forked rs \<Rightarrow>
                    (let w3 = server_begins h name cmd p i w2
                     in case read_startup_status rs of
                          None \<Rightarrow> (None, w3)
                        | Some (Inl e) \<Rightarrow> (Some (Inl e), remove_file p w3)
                        | Some (Inr u) \<Rightarrow> (Some (Inr ()), w3)))))"

subsection \<open>Creating: the server\<close>

datatype pty_answer = ForkptyErr io_error | ExecErr io_error | Started

text \<open>What is written to the startup pipe before its last writing end is closed.\<close>

definition startup_bytes :: "string list \<Rightarrow> pty_answer \<Rightarrow> bytes" where
  "startup_bytes cmd a =
     (case a of
        ForkptyErr e \<Rightarrow> as_bytes (''server-forkpty: '' @ err_msg e @ [CHR 0x0A])
      | ExecErr e \<Rightarrow> as_bytes (''server-execvp: '' @ hd cmd @ '': '' @ err_msg e @ [CHR 0x0A])
      | Started \<Rightarrow> [])"

text \<open>\<open>fcntl\<close> on one descriptor: what \<open>F_GETFL\<close> answers and whether \<open>F_SETFL\<close> fails. The flags set are returned.\<close>

record fd_calls =
  getfl :: "u32 io_result"
  setfl_err :: "io_error option"

definition set_nonblocking :: "u32 \<Rightarrow> fd_calls \<Rightarrow> unit io_result \<times> u32 option" where
  "set_nonblocking O_NONBLOCK f =
     (case getfl f of
        Inl e \<Rightarrow> (Inl e, None)
      | Inr fl \<Rightarrow>
          (case setfl_err f of
             Some e \<Rightarrow> (Inl e, None)
           | None \<Rightarrow> (Inr (), Some (fl OR O_NONBLOCK))))"

text \<open>How the server's part of the process ends: with a result, or unwinding from a panic (location, message).\<close>

datatype server_end = Ends "unit io_result" | Panics "(string \<times> nat) option" "string option"

definition run_server :: "pty_answer \<Rightarrow> u32 \<Rightarrow> fd_calls \<Rightarrow> fd_calls \<Rightarrow> loop_result \<Rightarrow> unit io_result option" where
  "run_server a O_NONBLOCK listener master loop =
     (case a of
        ForkptyErr e \<Rightarrow> Some (Inl e)
      | _ \<Rightarrow>
          (case fst (set_nonblocking O_NONBLOCK listener) of
             Inl e \<Rightarrow> Some (Inl e)
           | Inr u \<Rightarrow>
               (case fst (set_nonblocking O_NONBLOCK master) of
                  Inl e \<Rightarrow> Some (Inl e)
                | Inr u' \<Rightarrow> (case loop of Done s \<Rightarrow> Some (Inr ()) | _ \<Rightarrow> None))))"

text \<open>\<open>SocketGuard\<close>, and the line its companion, the panic hook, logs before the stack unwinds.\<close>

record socket_guard =
  guarded :: string
  armed :: bool

definition guard_new :: "string \<Rightarrow> socket_guard" where
  "guard_new p = \<lparr>guarded = p, armed = True\<rparr>"

definition guard_drop :: "socket_guard \<Rightarrow> world \<Rightarrow> world" where
  "guard_drop g w = (if armed g then remove_file (guarded g) w else w)"

definition panic_message :: "(string \<times> nat) option \<Rightarrow> string option \<Rightarrow> string" where
  "panic_message location message =
     ''at '' @ (case location of None \<Rightarrow> ''?'' | Some (file, line) \<Rightarrow> file @ '':'' @ show_nat line) @
     '' payload='' @ (case message of None \<Rightarrow> ''<non-string panic payload>'' | Some m \<Rightarrow> m)"

text \<open>What the server process itself logs: when it starts and, unless it ends cleanly, why.\<close>

definition end_entries :: "server_end option \<Rightarrow> (string \<times> string) list" where
  "end_entries e =
     (case e of
        Some (Ends (Inl err)) \<Rightarrow> [(''exit-error'', err_msg err)]
      | Some (Panics location message) \<Rightarrow> [(''panic'', panic_message location message)]
      | _ \<Rightarrow> [])"

definition process_log :: "nat \<Rightarrow> string \<Rightarrow> server_end option \<Rightarrow> (string \<times> string) list" where
  "process_log pid name e = start_entry pid name # end_entries e"

text \<open>The calls of \<open>server_log\<close> among the effects of the loop, and a sequence of them on the file.\<close>

fun logged :: "effect list \<Rightarrow> (string \<times> string) list" where
  "logged [] = []"
| "logged (ServerLog kind msg # es) = (kind, msg) # logged es"
| "logged (e # es) = logged es"

fun write_log :: "string \<Rightarrow> nat \<Rightarrow> (nat \<Rightarrow> log_call) \<Rightarrow> (string \<times> string) list \<Rightarrow> world \<Rightarrow> world" where
  "write_log p pid ks [] w = w"
| "write_log p pid ks (e # es) w = write_log p pid (\<lambda>n. ks (Suc n)) es (server_log (Some p) (ks 0) pid e w)"

text \<open>
  The server process behind \<open>fork\<close>: its exit code (101 is the runtime's after a panic), and the world
  once it has logged what the loop's effects and its end say (\<open>ks\<close> answers the calls), the listener is
  closed and the guard dropped.
\<close>

definition server_process ::
  "string \<Rightarrow> nat \<Rightarrow> nat \<Rightarrow> (nat \<Rightarrow> log_call) \<Rightarrow> effect list \<Rightarrow> server_end option \<Rightarrow> world \<Rightarrow> nat option \<times> world" where
  "server_process p i pid ks es e w =
     (let w1 = write_log (derive_server_log_path p) pid ks (logged es @ end_entries e) w
      in case e of
        None \<Rightarrow> (None, w1)
      | Some x \<Rightarrow>
          (Some (case x of Ends (Inr u) \<Rightarrow> 0 | Ends (Inl err) \<Rightarrow> 1 | Panics location message \<Rightarrow> 101),
           guard_drop (guard_new p) (w1\<lparr>listening := removeAll i (listening w1)\<rparr>)))"

lemma server_process_ends:
  "server_process p i pid ks es (Some x) w = (code, w') \<Longrightarrow>
     w' = remove_file p ((write_log (derive_server_log_path p) pid ks (logged es @ end_entries (Some x)) w)
       \<lparr>listening := removeAll i (listening (write_log (derive_server_log_path p) pid ks (logged es @ end_entries (Some x)) w))\<rparr>)"
  by (simp add: server_process_def guard_drop_def guard_new_def Let_def)

subsection \<open>What the operations leave alone\<close>

lemma act_fields [simp]:
  "fs (act e w) = fs w" "listening (act e w) = listening w" "next_id (act e w) = next_id w"
  "dirs (act e w) = dirs w" "commands (act e w) = commands w"
  by (simp_all add: act_def)

lemma create_dir_all_cases:
  "create_dir_all h d w = (e, w') \<longleftrightarrow> e = mkdir_err h d \<and>
     w' = (if mkdir_err h d = None
           then act (MkdirAll d) (w\<lparr>dirs := dirs w \<union> set (filter (\<lambda>a. fs w a = None) (ancestors d))\<rparr>) else w)"
  by (cases "mkdir_err h d") (auto simp: create_dir_all_def)

lemma create_dir_all_fields:
  assumes "create_dir_all h d w = (e, w')"
  shows "fs w' = fs w" "listening w' = listening w" "next_id w' = next_id w" "commands w' = commands w"
    "e = mkdir_err h d" "dirs w \<subseteq> dirs w'" "dirs w' \<subseteq> dirs w \<union> set (ancestors d)"
    "\<forall>q \<in> dirs w' - dirs w. fs w q = None"
  using assms by (cases "mkdir_err h d"; auto simp: create_dir_all_cases)+

lemma first_dir_step:
  "first_dir h (d # ds) w =
     (if mkdir_err h d = None then (Inr d, act (Chmod d 448) (snd (create_dir_all h d w))) else first_dir h ds w)"
  by (cases "mkdir_err h d") (simp_all add: create_dir_all_def)

declare first_dir.simps(2) [simp del]

lemma first_dir_fields:
  "fs (snd (first_dir h ds w)) = fs w \<and> listening (snd (first_dir h ds w)) = listening w \<and>
   next_id (snd (first_dir h ds w)) = next_id w \<and> commands (snd (first_dir h ds w)) = commands w \<and>
   (\<forall>q \<in> dirs (snd (first_dir h ds w)) - dirs w. fs w q = None)"
proof (induction ds)
  case (Cons d ds)
  show ?case
  proof (cases "mkdir_err h d")
    case None
    then show ?thesis by (auto simp: first_dir_step create_dir_all_def)
  qed (use Cons in \<open>simp add: first_dir_step\<close>)
qed simp

text \<open>Directories that are made: those above the directory chosen.\<close>

lemma first_dir_dirs:
  "dirs w \<subseteq> dirs (snd (first_dir h ds w)) \<and>
   dirs (snd (first_dir h ds w)) \<subseteq> dirs w \<union>
     (case fst (first_dir h ds w) of Inl e \<Rightarrow> {} | Inr b \<Rightarrow> if b \<in> set ds then set (ancestors b) else {})"
proof (induction ds)
  case (Cons d ds)
  show ?case
  proof (cases "mkdir_err h d")
    case None
    then show ?thesis by (auto simp: first_dir_step create_dir_all_def)
  next
    case (Some e)
    with Cons show ?thesis by (auto simp: first_dir_step split: sum.splits if_splits)
  qed
qed simp

lemma first_dir_world: "fst (first_dir h ds w) = fst (first_dir h ds w')"
proof (induction ds arbitrary: w w')
  case (Cons d ds)
  then show ?case by (simp add: first_dir_step)
qed simp

lemma socket_path_fst_snd:
  "fst (socket_path h name w) =
     (if prefix ''/'' name then Inr name
      else if prefix ''./'' name \<or> prefix ''../'' name then map_sum id (\<lambda>d. path_join d name) (cwd h)
      else map_sum id (\<lambda>base. path_join base (name @ ''@'' @ hostname h)) (fst (first_dir h (candidates h) w)))"
  "snd (socket_path h name w) =
     (if prefix ''/'' name \<or> prefix ''./'' name \<or> prefix ''../'' name then w
      else snd (first_dir h (candidates h) w))"
  by (simp_all add: socket_path_def socket_base_dir_def split: prod.split sum.split)

lemma socket_path_fields [simp]:
  "fs (snd (socket_path h name w)) = fs w" "listening (snd (socket_path h name w)) = listening w"
  "next_id (snd (socket_path h name w)) = next_id w" "commands (snd (socket_path h name w)) = commands w"
  "\<forall>q \<in> dirs (snd (socket_path h name w)) - dirs w. fs w q = None"
  using first_dir_fields by (auto simp: socket_path_fst_snd)

text \<open>The path is a function of the name and the environment, not of the world.\<close>

lemma socket_path_world: "fst (socket_path h name w) = fst (socket_path h name w')"
  using first_dir_world [of h "candidates h" w w'] by (simp add: socket_path_fst_snd)

text \<open>The directories that \<open>socket_path\<close> may make, and that the path itself is none of them.\<close>

definition base_dirs :: "host \<Rightarrow> string set" where
  "base_dirs h = (\<Union>d \<in> set (candidates h). set (ancestors d))"

lemma socket_path_dirs:
  "dirs w \<subseteq> dirs (snd (socket_path h name w)) \<and> dirs (snd (socket_path h name w)) \<subseteq> dirs w \<union> base_dirs h"
  using first_dir_dirs [of w h "candidates h"]
  by (fastforce simp: socket_path_fst_snd base_dirs_def split: sum.splits if_splits)

lemma path_join_longer: "\<not> prefix ''/'' f \<Longrightarrow> f \<noteq> [] \<Longrightarrow> length a < length (path_join a f)"
  by (cases f) (auto simp: path_join_def)

lemma socket_path_not_made:
  assumes "fst (socket_path h name w) = Inr p"
  shows "p \<in> dirs (snd (socket_path h name w)) \<longleftrightarrow> p \<in> dirs w"
proof (cases "prefix ''/'' name \<or> prefix ''./'' name \<or> prefix ''../'' name")
  case True
  then show ?thesis by (simp add: socket_path_fst_snd)
next
  case False
  with assms obtain b where b: "fst (first_dir h (candidates h) w) = Inr b" "p = path_join b (name @ ''@'' @ hostname h)"
    by (cases "fst (first_dir h (candidates h) w)") (auto simp: socket_path_fst_snd)
  have "\<not> prefix ''/'' (name @ ''@'' @ hostname h)" using False by (cases name) auto
  from path_join_longer [OF this, of b] b(2) have "p \<notin> set (ancestors b)"
    using ancestors_length [of p b] by auto
  with first_dir_dirs [of w h "candidates h"] b(1) False show ?thesis
    by (auto simp: socket_path_fst_snd split: if_splits)
qed

lemma remove_file_fields [simp]:
  "listening (remove_file p w) = listening w" "next_id (remove_file p w) = next_id w"
  "dirs (remove_file p w) = dirs w" "commands (remove_file p w) = commands w"
  "q \<noteq> p \<Longrightarrow> fs (remove_file p w) q = fs w q"
  by (simp_all add: remove_file_def)

lemma remove_file_gone [simp]: "fs (remove_file p w) p = None"
  by (simp add: remove_file_def)

lemma server_log_fields [simp]:
  "listening (server_log lp k pid e w) = listening w" "next_id (server_log lp k pid e w) = next_id w"
  "dirs (server_log lp k pid e w) = dirs w" "commands (server_log lp k pid e w) = commands w"
  by (simp_all add: server_log_def split: option.split node.split)

lemma server_log_other [simp]: "q \<noteq> p \<Longrightarrow> fs (server_log (Some p) k pid e w) q = fs w q"
  by (simp add: server_log_def split: option.split node.split)

lemma server_log_made:
  "log_opened k = Some n \<Longrightarrow> fs w p = None \<Longrightarrow> p \<notin> dirs w \<Longrightarrow>
     fs (server_log (Some p) k pid e w) p = Some (RegularFile (take n (server_log_line (log_clock k) pid (fst e) (snd e))))"
  by (simp add: server_log_def)

lemma write_log_fields [simp]:
  "listening (write_log p pid ks es w) = listening w" "next_id (write_log p pid ks es w) = next_id w"
  "dirs (write_log p pid ks es w) = dirs w" "commands (write_log p pid ks es w) = commands w"
  by (induction es arbitrary: ks w) simp_all

lemma write_log_other [simp]: "q \<noteq> p \<Longrightarrow> fs (write_log p pid ks es w) q = fs w q"
  by (induction es arbitrary: ks w) simp_all

text \<open>What a sequence of calls adds to a log file.\<close>

fun log_text :: "nat \<Rightarrow> (nat \<Rightarrow> log_call) \<Rightarrow> (string \<times> string) list \<Rightarrow> string" where
  "log_text pid ks [] = []"
| "log_text pid ks (e # es) =
     (case log_opened (ks 0) of None \<Rightarrow> [] | Some n \<Rightarrow> take n (server_log_line (log_clock (ks 0)) pid (fst e) (snd e))) @
     log_text pid (\<lambda>n. ks (Suc n)) es"

lemma write_log_appends:
  "fs w p = Some (RegularFile old) \<Longrightarrow>
     fs (write_log p pid ks es w) p = Some (RegularFile (old @ log_text pid ks es))"
proof (induction es arbitrary: ks w old)
  case (Cons e es)
  show ?case
  proof (cases "log_opened (ks 0)")
    case None
    with Cons show ?thesis by (simp add: server_log_def)
  next
    case (Some n)
    have "fs (server_log (Some p) (ks 0) pid e w) p =
        Some (RegularFile (old @ take n (server_log_line (log_clock (ks 0)) pid (fst e) (snd e))))"
      using Cons.prems Some by (simp add: server_log_def)
    from Cons.IH [OF this] Some show ?thesis by simp
  qed
qed simp

lemma server_begins_fields [simp]:
  "listening (server_begins h name cmd p i w) = listening w" "next_id (server_begins h name cmd p i w) = next_id w"
  "dirs (server_begins h name cmd p i w) = dirs w" "fs (server_begins h name cmd p i w) p = fs w p"
  "q \<noteq> derive_server_log_path p \<Longrightarrow> fs (server_begins h name cmd p i w) q = fs w q"
  "commands (server_begins h name cmd p i w) = (commands w)(i \<mapsto> cmd)"
  by (simp_all add: server_begins_def not_sym [OF log_path_differs])

lemma server_begins_log:
  assumes "log_opened (start_call h) = Some n" "fs w (derive_server_log_path p) = None" "derive_server_log_path p \<notin> dirs w"
  shows "fs (server_begins h name cmd p i w) (derive_server_log_path p) =
    Some (RegularFile (take n (server_log_line (log_clock (start_call h)) (forked_pid h) ''start''
      (''pid='' @ show_nat (forked_pid h) @ '' session='' @ name))))"
  using server_log_made [OF assms(1), of "w\<lparr>commands := (commands w)(i \<mapsto> cmd)\<rparr>" "derive_server_log_path p"
      "forked_pid h" "start_entry (forked_pid h) name"] assms(2,3)
  by (simp add: server_begins_def start_entry_def)

lemma socket_path_cases:
  assumes "socket_path h name w = (r, w1)"
  shows "fs w1 = fs w" "listening w1 = listening w" "next_id w1 = next_id w" "commands w1 = commands w"
    "\<forall>q \<in> dirs w1 - dirs w. fs w q = None" "dirs w \<subseteq> dirs w1" "dirs w1 \<subseteq> dirs w \<union> base_dirs h"
    "\<forall>p. r = Inr p \<longrightarrow> (p \<in> dirs w1 \<longleftrightarrow> p \<in> dirs w)"
  using socket_path_fields [of h name w] socket_path_dirs [of w h name] socket_path_not_made [of h name w]
  unfolding assms by simp_all

text \<open>What a command may do to the world besides its own path: nothing is lost, and directories are made.\<close>

definition own_dirs :: "host \<Rightarrow> string \<Rightarrow> string set" where
  "own_dirs h p = base_dirs h \<union> (case path_parent p of None \<Rightarrow> {} | Some d \<Rightarrow> set (ancestors d))"

lemma own_dirs_not_path: "path_parent p = Some d \<Longrightarrow> p \<notin> set (ancestors d)"
  using path_parent_shorter ancestors_length by fastforce

lemma connect_session_fields:
  assumes "connect_session h name w = (r, w')" "fst (socket_path h name w) = Inr p"
  shows "listening w' = listening w \<and> next_id w' = next_id w \<and> (\<forall>q. q \<noteq> p \<longrightarrow> fs w' q = fs w q) \<and>
    (fs w' p = fs w p \<or> fs w' p = None) \<and> commands w' = commands w \<and> (p \<in> dirs w' \<longleftrightarrow> p \<in> dirs w)"
proof (cases "socket_path h name w")
  case (Pair x w1)
  note f = socket_path_cases [OF Pair]
  from Pair assms have "x = Inr p" by simp
  with assms(1) Pair f show ?thesis
    by (auto simp: connect_session_def remove_file_def split: sum.splits if_splits)
qed

lemma session_alive_fields:
  assumes "session_alive h name w = (b, w')" "fst (socket_path h name w) = Inr p"
  shows "listening w' = listening w \<and> next_id w' = next_id w \<and> (\<forall>q. q \<noteq> p \<longrightarrow> fs w' q = fs w q) \<and>
    (fs w' p = fs w p \<or> fs w' p = None) \<and> commands w' = commands w \<and> (p \<in> dirs w' \<longleftrightarrow> p \<in> dirs w)"
proof (cases "connect_session h name w")
  case (Pair x w1)
  from connect_session_fields [OF Pair assms(2)] Pair assms(1) show ?thesis
    by (auto simp: session_alive_def split: sum.splits)
qed

lemma unix_bind_ok:
  assumes "unix_bind h p v = (Inr j, v')"
  shows "j = next_id v" "next_id v' = Suc (next_id v)" "listening v' = j # listening v"
    "fs v' p = Some (SocketFile j)" "\<forall>q. q \<noteq> p \<longrightarrow> fs v' q = fs v q" "dirs v' = dirs v" "commands v' = commands v"
    "p \<notin> dirs v" "fs v p = None"
  using assms by (auto simp: unix_bind_def split: option.splits if_splits)

text \<open>The directory of the path, made on the way.\<close>

definition make_parent :: "host \<Rightarrow> string \<Rightarrow> world \<Rightarrow> io_error option \<times> world" where
  "make_parent h p w = (case path_parent p of None \<Rightarrow> (None, w) | Some d \<Rightarrow> create_dir_all h d w)"

lemma make_parent_fields:
  assumes "make_parent h p w = (e, w')"
  shows "fs w' = fs w" "listening w' = listening w" "next_id w' = next_id w" "commands w' = commands w"
    "dirs w \<subseteq> dirs w'" "dirs w' \<subseteq> dirs w \<union> own_dirs h p" "p \<in> dirs w' \<longleftrightarrow> p \<in> dirs w"
    "\<forall>q \<in> dirs w' - dirs w. fs w q = None"
proof -
  have "fs w' = fs w \<and> listening w' = listening w \<and> next_id w' = next_id w \<and> commands w' = commands w \<and>
    dirs w \<subseteq> dirs w' \<and> dirs w' \<subseteq> dirs w \<union> own_dirs h p \<and> (p \<in> dirs w' \<longleftrightarrow> p \<in> dirs w) \<and>
    (\<forall>q \<in> dirs w' - dirs w. fs w q = None)"
  proof (cases "path_parent p")
    case None
    with assms show ?thesis by (simp add: make_parent_def)
  next
    case (Some d)
    with assms have "create_dir_all h d w = (e, w')" by (simp add: make_parent_def)
    note k = create_dir_all_fields [OF this]
    show ?thesis
      using k(1-4,6,7,8) own_dirs_not_path [OF Some] Some by (auto simp: own_dirs_def)
  qed
  then show "fs w' = fs w" "listening w' = listening w" "next_id w' = next_id w" "commands w' = commands w"
    "dirs w \<subseteq> dirs w'" "dirs w' \<subseteq> dirs w \<union> own_dirs h p" "p \<in> dirs w' \<longleftrightarrow> p \<in> dirs w"
    "\<forall>q \<in> dirs w' - dirs w. fs w q = None"
    by simp_all
qed

lemma claim_path_steps:
  assumes "claim_path h name w = (Inr (p, i), w')"
  obtains w1 w2 w3 where "socket_path h name w = (Inr p, w1)" "make_parent h p w1 = (None, w2)"
    "unix_bind h p (remove_file p w2) = (Inr i, w3)" "w' = act (Chmod p 384) w3"
  using assms by (auto simp: claim_path_def make_parent_def split: prod.splits sum.splits option.splits)

lemma claim_path_ok:
  assumes "claim_path h name w = (Inr (p, i), w')"
  shows "fst (socket_path h name w) = Inr p \<and> i = next_id w \<and> next_id w' = Suc (next_id w) \<and>
    listening w' = i # listening w \<and> fs w' p = Some (SocketFile i) \<and> (\<forall>q. q \<noteq> p \<longrightarrow> fs w' q = fs w q) \<and>
    commands w' = commands w \<and> p \<notin> dirs w'"
  using assms
proof (rule claim_path_steps)
  fix w1 w2 w3
  assume s: "socket_path h name w = (Inr p, w1)" and m: "make_parent h p w1 = (None, w2)"
    and b: "unix_bind h p (remove_file p w2) = (Inr i, w3)" and w': "w' = act (Chmod p 384) w3"
  show ?thesis
    using s w' socket_path_cases [OF s] make_parent_fields [OF m] unix_bind_ok [OF b] by auto
qed

subsection \<open>Properties\<close>

text \<open>A plain session name is one socket: names that are neither absolute nor start with \<open>./\<close> or \<open>../\<close>
  map to \<open>name@host\<close> in the base directory, the first candidate that can be made, distinct names to
  distinct paths, whatever has happened to the file system in between.\<close>

lemma socket_path_injective:
  assumes "\<not> prefix ''/'' m" and "\<not> prefix ''./'' m" and "\<not> prefix ''../'' m"
    and "\<not> prefix ''/'' n" and "\<not> prefix ''./'' n" and "\<not> prefix ''../'' n"
    and "fst (socket_path h m w) = Inr p" and "fst (socket_path h n w') = Inr q"
  shows "(p = q \<longleftrightarrow> m = n) \<and>
    (\<exists>base. fst (socket_base_dir h w) = Inr base \<and> base \<in> set (candidates h) \<and>
       p = path_join base (m @ ''@'' @ hostname h))"
proof -
  have d: "fst (first_dir h ds v) = Inr b \<Longrightarrow> b \<in> set ds" for ds v b
    by (induction ds arbitrary: v) (auto simp: first_dir_step split: if_splits)
  have s: "fst (socket_path h k v) = map_sum id (\<lambda>b. path_join b (k @ ''@'' @ hostname h)) (fst (socket_base_dir h v))"
    if "\<not> prefix ''/'' k" "\<not> prefix ''./'' k" "\<not> prefix ''../'' k" for k v
    using that by (simp add: socket_path_fst_snd socket_base_dir_def)
  have e: "fst (socket_base_dir h w') = fst (socket_base_dir h w)"
    unfolding socket_base_dir_def by (rule first_dir_world)
  from assms(7) s [OF assms(1-3)] obtain b where b: "fst (socket_base_dir h w) = Inr b"
    "p = path_join b (m @ ''@'' @ hostname h)"
    by (cases "fst (socket_base_dir h w)") auto
  with assms(8) s [OF assms(4-6)] e have q: "q = path_join b (n @ ''@'' @ hostname h)" by simp
  have np: "\<not> prefix ''/'' (k @ ''@'' @ r)" if "\<not> prefix ''/'' k" for k r
    using that by (cases k) auto
  have "p = q \<longleftrightarrow> m = n"
    using b(2) q np [OF assms(1)] np [OF assms(4)] by (auto simp: path_join_def split: if_splits)
  then show ?thesis using b d unfolding socket_base_dir_def by blast
qed

definition demo_host :: host where
  "demo_host =
     \<lparr>envvar = (\<lambda>v. if v = ''HOME'' then Some ''/h'' else None), uid = 7, cwd = Inr ''/'', gethostname = Some [104, 0],
      mkdir_err = (\<lambda>d. None), connect_err = (\<lambda>p. None), bind_err = (\<lambda>p. None),
      peer = (\<lambda>i. \<lparr>rx = [Bytes (packet_bytes \<lparr>mtyp = MSG_PID, payload = []\<rparr>)], tx = [], wire = []\<rparr>),
      forked_pid = 8, start_call = \<lparr>log_opened = Some 99, log_clock = None\<rparr>\<rparr>"

definition demo_world :: world where
  "demo_world = \<lparr>fs = (\<lambda>p. if p = ''/n.txt'' then Some (RegularFile ''n'') else None), dirs = {''/''}, listening = [], next_id = 0,
     commands = (\<lambda>i. None), acts = []\<rparr>"

lemma demo_paths:
  "fst (socket_path demo_host ''a'' w) = Inr ''/h/.lich/a@h''"
  "fst (socket_path demo_host ''b'' w) = Inr ''/h/.lich/b@h''"
  by (simp_all add: socket_path_fst_snd candidates_def demo_host_def path_join_def hostname_def Let_def
      first_dir_step chars_of_def char_of_def bit_simps)

text \<open>C30: A live session is safe from the clients: connecting to it finds its server and changes no file,
  and while it greets with \<open>MSG_PID\<close>, \<open>create_session\<close> with its name is refused as already existing,
  with every file and every listener as it was (the base directory is made if it is missing).\<close>

theorem live_session_untouched:
  assumes "fst (socket_path h name w) = Inr p" and "fs w p = Some (SocketFile i)"
    and "i \<in> set (listening w)" and "connect_err h p = None"
    and "recv_packet_blocking (peer h i) = Some (Inr pkt, s)" and "mtyp pkt = MSG_PID"
  shows "fst (connect_session h name w) = Inr i \<and> fs (snd (connect_session h name w)) = fs w \<and>
    (\<exists>w'. create_session h name cmd l w = (Some (Inl (IoError AddrInUse ''session exists'')), w') \<and>
       fs w' = fs w \<and> listening w' = listening w)"
proof (cases "socket_path h name w")
  case (Pair x w1)
  note f = socket_path_cases [OF Pair]
  from Pair assms(1) have "x = Inr p" by simp
  with Pair have c: "connect_session h name w = (Inr i, w1)"
    using assms(2-4) f by (simp add: connect_session_def unix_connect_def)
  then have "session_alive h name w = (Some True, w1)"
    using assms(5,6) by (simp add: session_alive_def)
  then have "create_session h name cmd l w = (Some (Inl (IoError AddrInUse ''session exists'')), w1)"
    by (simp add: create_session_def)
  with c f show ?thesis by auto
qed

definition live_world :: world where
  "live_world = demo_world\<lparr>fs := (\<lambda>q. if q = ''/h/.lich/a@h'' then Some (SocketFile 4) else None), listening := [4]\<rparr>"

theorem live_session_untouched_witness:
  "\<exists>w'. create_session demo_host ''a'' [''sh''] (LaunchFails eagain) live_world =
     (Some (Inl (IoError AddrInUse ''session exists'')), w') \<and> fs w' = fs live_world"
proof -
  have "\<exists>s'. recv_packet_blocking (peer demo_host 4) = Some (Inr \<lparr>mtyp = MSG_PID, payload = []\<rparr>, s') \<and> readable (rx s') = []"
    by (rule recv_packet_next) (simp_all add: demo_host_def packet_ok_def)
  then obtain s' where r: "recv_packet_blocking (peer demo_host 4) = Some (Inr \<lparr>mtyp = MSG_PID, payload = []\<rparr>, s')"
    by blast
  have "fs live_world ''/h/.lich/a@h'' = Some (SocketFile 4)" "4 \<in> set (listening live_world)"
    "connect_err demo_host ''/h/.lich/a@h'' = None"
    by (simp_all add: live_world_def demo_host_def)
  from live_session_untouched [OF demo_paths(1) this r] show ?thesis by force
qed

text \<open>C35: Attaching to a path that names an ordinary file deletes the file: the connection is refused because
  the path is not a socket, and \<open>connect_session\<close> takes every refusal for an orphaned socket.\<close>

theorem attach_deletes_ordinary_file:
  assumes "prefix ''/'' p" and "fs w p = Some (RegularFile t)" and "connect_err h p = None"
  shows "fst (connect_session h p w) = Inl (IoError ConnectionRefused ''Connection refused'') \<and>
    fs (snd (connect_session h p w)) = (fs w)(p := None)"
  using assms by (simp add: connect_session_def socket_path_def unix_connect_def remove_file_def)

theorem attach_deletes_ordinary_file_witness:
  "fs demo_world ''/n.txt'' = Some (RegularFile ''n'') \<and>
   fs (snd (connect_session demo_host ''/n.txt'' demo_world)) ''/n.txt'' = None"
  using attach_deletes_ordinary_file [of "''/n.txt''" demo_world "''n''" demo_host]
  by (simp add: demo_world_def demo_host_def)

text \<open>A created session is reachable: when \<open>create_session\<close> reports success, the name's path is the
  socket of a server that listens and that no path named before, it was started for the command given,
  and no path but this and the server's log has changed.\<close>

lemma created_session_reachable:
  assumes "create_session h name cmd (Forked rs) w = (Some (Inr ()), w')"
  shows "\<exists>p. fst (socket_path h name w) = Inr p \<and> fs w' p = Some (SocketFile (next_id w)) \<and>
    next_id w \<in> set (listening w') \<and>
    (\<forall>q. q \<noteq> p \<and> q \<noteq> derive_server_log_path p \<longrightarrow> fs w' q = fs w q) \<and>
    (connect_err h p = None \<longrightarrow> fst (connect_session h name w') = Inr (next_id w)) \<and>
    p \<notin> dirs w' \<and> commands w' = (commands w)(next_id w \<mapsto> cmd) \<and>
    (\<forall>n. log_opened (start_call h) = Some n \<and> fs w (derive_server_log_path p) = None \<and>
       derive_server_log_path p \<notin> dirs w' \<longrightarrow>
       fs w' (derive_server_log_path p) = Some (RegularFile (take n (server_log_line (log_clock (start_call h))
         (forked_pid h) ''start'' (''pid='' @ show_nat (forked_pid h) @ '' session='' @ name)))))"
proof -
  from assms obtain w1 where a: "session_alive h name w = (Some False, w1)"
    by (auto simp: create_session_def split: prod.splits option.splits bool.splits)
  with assms obtain p i w2 where c: "claim_path h name w1 = (Inr (p, i), w2)" "w' = server_begins h name cmd p i w2"
    by (auto simp: create_session_def Let_def split: prod.splits sum.splits option.splits)
  note k = claim_path_ok [OF c(1)]
  have p: "fst (socket_path h name v) = Inr p" for v
    using k socket_path_world [of h name v w1] by simp
  note f = session_alive_fields [OF a p]
  have w': "fs w' p = Some (SocketFile (next_id w))" "next_id w \<in> set (listening w')" "p \<notin> dirs w'"
    "commands w' = (commands w)(next_id w \<mapsto> cmd)"
    "\<forall>q. q \<noteq> p \<and> q \<noteq> derive_server_log_path p \<longrightarrow> fs w' q = fs w q"
    using k f c(2) by auto
  have "fs w2 (derive_server_log_path p) = fs w (derive_server_log_path p)"
    using k f by simp
  then have log: "fs w' (derive_server_log_path p) = Some (RegularFile (take n (server_log_line (log_clock (start_call h))
         (forked_pid h) ''start'' (''pid='' @ show_nat (forked_pid h) @ '' session='' @ name))))"
    if "log_opened (start_call h) = Some n" "fs w (derive_server_log_path p) = None"
      "derive_server_log_path p \<notin> dirs w'" for n
    using server_begins_log [OF that(1), of w2 p name cmd i] that(2,3) c(2) by simp
  have "fst (connect_session h name w') = Inr (next_id w)" if "connect_err h p = None"
  proof (cases "socket_path h name w'")
    case (Pair x w3)
    with p [of w'] have "x = Inr p" by simp
    with Pair socket_path_cases [OF Pair] that w' show ?thesis
      by (simp add: connect_session_def unix_connect_def)
  qed
  note conn = this
  have p': "fst (socket_path h name w) = Inr p" by (rule p)
  show ?thesis
    by (intro exI [of _ p] conjI allI impI; (elim conjE)?; (rule p' w' conn log; assumption?)?)
      (use w' in simp_all)
qed

lemma startup_loop_pieces:
  "list_all (\<lambda>d. d \<noteq> [] \<and> length d \<le> 256) ds \<Longrightarrow>
     startup_loop b (map Bytes ds @ [Bytes []]) = Some (Inr (b @ concat ds), [])"
proof (induction ds arbitrary: b)
  case Nil
  then show ?case by (simp add: startup_loop.simps sys_read_def)
next
  case (Cons d ds)
  then show ?case
    by (simp add: startup_loop.simps [of b "Bytes d # map Bytes ds @ [Bytes []]"] sys_read_def)
qed

definition created_demo :: world where
  "created_demo = snd (create_session demo_host ''a'' [''sh''] (Forked [Bytes []]) demo_world)"

lemma demo_free:
  assumes "fs w ''/h/.lich/a@h'' = None" "''/h/.lich/a@h'' \<notin> dirs w"
  shows "session_alive demo_host ''a'' w = (Some False, snd (socket_path demo_host ''a'' w))"
proof (cases "socket_path demo_host ''a'' w")
  case (Pair x w1)
  with demo_paths(1) [of w] have x: "x = Inr ''/h/.lich/a@h''" by simp
  have "fs w1 ''/h/.lich/a@h'' = None" "''/h/.lich/a@h'' \<notin> dirs w1"
    using socket_path_cases(1,8) [OF Pair] x assms by simp_all
  moreover have "connect_err demo_host ''/h/.lich/a@h'' = None" by (simp add: demo_host_def)
  ultimately show ?thesis
    using Pair x by (simp add: session_alive_def connect_session_def unix_connect_def)
qed

lemma demo_world_free [simp]: "''/h/.lich/a@h'' \<notin> dirs demo_world" "fs demo_world ''/h/.lich/a@h'' = None"
  by (simp_all add: demo_world_def)

lemma demo_claim:
  assumes "''/h/.lich/a@h'' \<notin> dirs w"
  shows "\<exists>i w'. claim_path demo_host ''a'' w = (Inr (''/h/.lich/a@h'', i), w')"
proof (cases "socket_path demo_host ''a'' w")
  case (Pair x w1)
  with demo_paths(1) [of w] have x: "x = Inr ''/h/.lich/a@h''" by simp
  obtain e w2 where m: "make_parent demo_host ''/h/.lich/a@h'' w1 = (e, w2)"
    by (cases "make_parent demo_host ''/h/.lich/a@h'' w1")
  have "e = None" using m by (auto simp: make_parent_def demo_host_def create_dir_all_def split: option.splits)
  moreover have "''/h/.lich/a@h'' \<notin> dirs w2"
    using make_parent_fields(7) [OF m] socket_path_cases(8) [OF Pair] x assms by simp
  ultimately show ?thesis
    using Pair x m by (simp add: claim_path_def make_parent_def [symmetric] unix_bind_def) (simp add: demo_host_def)
qed

lemma created_demo_ok: "create_session demo_host ''a'' [''sh''] (Forked [Bytes []]) demo_world = (Some (Inr ()), created_demo)"
proof -
  have "session_alive demo_host ''a'' demo_world =
      (Some False, snd (socket_path demo_host ''a'' demo_world))"
    by (rule demo_free) simp_all
  moreover have "read_startup_status [Bytes []] = Some (Inr ())"
    using startup_loop_pieces [of "[]" "[]"] by (simp add: read_startup_status_def)
  moreover obtain i w' where
    "claim_path demo_host ''a'' (snd (socket_path demo_host ''a'' demo_world)) = (Inr (''/h/.lich/a@h'', i), w')"
    using demo_claim [of "snd (socket_path demo_host ''a'' demo_world)"] socket_path_not_made [OF demo_paths(1)]
    by auto
  ultimately show ?thesis
    by (simp add: created_demo_def create_session_def Let_def)
qed

text \<open>A failed start is reported and cleaned up: the parent reads the startup pipe to its end, in any
  pieces, and reports success exactly when nothing was written to it, that is when the pty was
  made and the command executed; otherwise it reports what \<open>forkpty\<close> or \<open>execvp\<close> said, and
  \<open>create_session\<close> has removed the socket it had bound.\<close>

lemma startup_status_exact:
  assumes "list_all (\<lambda>d. d \<noteq> [] \<and> length d \<le> 256) ds" and "concat ds = startup_bytes cmd a"
  shows "(read_startup_status (map Bytes ds @ [Bytes []]) = Some (Inr ()) \<longleftrightarrow> a = Started) \<and>
    (\<forall>e. a = ExecErr e \<longrightarrow> read_startup_status (map Bytes ds @ [Bytes []]) =
       Some (Inl (IoError Other (trim_end (''server-execvp: '' @ hd cmd @ '': '' @ err_msg e))))) \<and>
    (\<forall>w w' r. a \<noteq> Started \<longrightarrow> session_alive h name w = (Some False, w') \<longrightarrow>
       fst (claim_path h name w') = Inr r \<longrightarrow>
       fs (snd (create_session h name cmd (Forked (map Bytes ds @ [Bytes []])) w)) (fst r) = None)"
proof -
  let ?rs = "map Bytes ds @ [Bytes []]"
  have s: "read_startup_status ?rs = Some (if startup_bytes cmd a = [] then Inr ()
      else Inl (IoError Other (trim_end (chars_of (startup_bytes cmd a)))))"
    using startup_loop_pieces [OF assms(1), of "[]"] assms(2) by (simp add: read_startup_status_def)
  have n: "startup_bytes cmd a = [] \<longleftrightarrow> a = Started"
    by (simp add: startup_bytes_def split: pty_answer.split)
  have nl: "trim_end (m @ [CHR 0x0A]) = trim_end m" for m
    by (simp add: trim_end_def is_space_def)
  have "fs (snd (create_session h name cmd (Forked ?rs) w)) (fst r) = None"
    if h: "a \<noteq> Started" "session_alive h name w = (Some False, w')" "fst (claim_path h name w') = Inr r" for w w' r
  proof -
    obtain p i w2 where c: "claim_path h name w' = (Inr (p, i), w2)" "r = (p, i)"
      using h(3) by (cases "claim_path h name w'"; cases r) auto
    have "create_session h name cmd (Forked ?rs) w =
        (Some (Inl (IoError Other (trim_end (chars_of (startup_bytes cmd a))))),
         remove_file p (server_begins h name cmd p i w2))"
      using h(1,2) c s n by (simp add: create_session_def Let_def)
    then show ?thesis using c(2) by simp
  qed
  moreover have "read_startup_status ?rs =
      Some (Inl (IoError Other (trim_end (''server-execvp: '' @ hd cmd @ '': '' @ err_msg e))))"
    if e: "a = ExecErr e" for e
  proof -
    have "chars_of (startup_bytes cmd a) = (''server-execvp: '' @ hd cmd @ '': '' @ err_msg e) @ [CHR 0x0A]"
      unfolding e startup_bytes_def by (simp only: pty_answer.case chars_of_as_bytes append_assoc)
    then have "trim_end (chars_of (startup_bytes cmd a)) = trim_end (''server-execvp: '' @ hd cmd @ '': '' @ err_msg e)"
      by (simp only: nl)
    moreover have "startup_bytes cmd a \<noteq> []" using n e by simp
    ultimately show ?thesis by (simp only: s if_False)
  qed
  moreover have "read_startup_status ?rs = Some (Inr ()) \<longleftrightarrow> a = Started" using s n by simp
  ultimately show ?thesis by blast
qed

text \<open>C36: Two creations of the same name that run at the same time can both succeed, and cost a session:
  when both have found the name free before either binds it, both servers listen, the first one
  has no path any more, and when the first one ends its \<open>SocketGuard\<close> removes the other's socket,
  whose server then listens without a path as well.\<close>

theorem concurrent_creates_orphan:
  assumes "session_alive h name w = (Some False, w1)" and "session_alive h name w1 = (Some False, w2)"
    and "claim_path h name w2 = (Inr (p, i), w3)" and "claim_path h name w3 = (Inr (q, j), w4)"
    and "server_process p i pid ks es (Some x) w4 = (code, w5)"
  shows "p = q \<and> i \<noteq> j \<and> {i, j} \<subseteq> set (listening w4) \<and> fs w4 p = Some (SocketFile j) \<and>
    fs w5 p = None \<and> j \<in> set (listening w5)"
proof -
  note a = claim_path_ok [OF assms(3)] and b = claim_path_ok [OF assms(4)]
  have pq: "p = q" using a b socket_path_world [of h name w2 w3] by simp
  moreover have ne: "i \<noteq> j" using a b by simp
  moreover have "fs w5 p = None" "listening w5 = removeAll i (listening w4)"
    using server_process_ends [OF assms(5)] by simp_all
  ultimately show ?thesis using a b by simp
qed

theorem concurrent_creates_orphan_witness:
  "\<exists>w i j w4. claim_path demo_host ''a'' w = (Inr (''/h/.lich/a@h'', j), w4) \<and> i \<noteq> j \<and>
     {i, j} \<subseteq> set (listening w4) \<and> fs w4 ''/h/.lich/a@h'' = Some (SocketFile j)"
proof -
  let ?w1 = "snd (socket_path demo_host ''a'' demo_world)"
  let ?w2 = "snd (socket_path demo_host ''a'' ?w1)"
  have a: "session_alive demo_host ''a'' demo_world = (Some False, ?w1)"
    "session_alive demo_host ''a'' ?w1 = (Some False, ?w2)"
    using socket_path_not_made [OF demo_paths(1)] by (auto intro: demo_free)
  obtain i w3 where c: "claim_path demo_host ''a'' ?w2 = (Inr (''/h/.lich/a@h'', i), w3)"
    using demo_claim [of ?w2] socket_path_not_made [OF demo_paths(1)] by auto
  obtain j w4 where d: "claim_path demo_host ''a'' w3 = (Inr (''/h/.lich/a@h'', j), w4)"
    using demo_claim [of w3] claim_path_ok [OF c] by auto
  from concurrent_creates_orphan [OF a c d, of 8 "\<lambda>n. \<lparr>log_opened = None, log_clock = None\<rparr>" "[]" "Ends (Inr ())"] d show ?thesis
    by (cases "server_process ''/h/.lich/a@h'' i 8 (\<lambda>n. \<lparr>log_opened = None, log_clock = None\<rparr>) [] (Some (Ends (Inr ()))) w4") auto
qed

end
