(* ===== verification/Startup.thy ===== *)
theory Startup
  imports Sessions
begin

text \<open>
  How a session starts, as three processes that run at the same time: the parent in
  \<open>create_session\<close> and \<open>read_startup_status\<close>, the server in \<open>run_server\<close> up to its loop, and the child of
  \<open>forkpty\<close> up to \<open>execvp\<close>. They share the startup pipe, whose reader sees the end of file once no
  process holds a writing end; a write may be split. \<open>startup_step\<close> interleaves them in any
  order. The parent has no signal handler yet, so no read is interrupted.
\<close>

subsection \<open>The processes\<close>

datatype parent_place = ParentForked | ParentReads | ParentReports "unit io_result"

datatype server_place = BeforePty | ServerTells io_error bytes | ServerFails io_error | AfterPty | Serves

datatype child_place = NoChild | ChildForked | BeforeExec | ChildTells io_error bytes | ChildExits io_error | ProgramRuns

record startup =
  parent :: parent_place
  starter :: server_place
  child :: child_place
  pipe :: bytes
  answers :: "read_answer list"

definition startup_begin :: startup where
  "startup_begin = \<lparr>parent = ParentForked, starter = BeforePty, child = NoChild, pipe = [], answers = []\<rparr>"

text \<open>Who holds a writing end: the parent until it closes its own, the server until it has come past
  \<open>forkpty\<close>, the child until \<open>execvp\<close> (by \<open>FD_CLOEXEC\<close>) or its exit.\<close>

fun server_holds :: "server_place \<Rightarrow> bool" where
  "server_holds Serves = False"
| "server_holds (ServerFails e) = False"
| "server_holds p = True"

fun child_holds :: "child_place \<Rightarrow> bool" where
  "child_holds NoChild = False"
| "child_holds ProgramRuns = False"
| "child_holds (ChildExits e) = False"
| "child_holds p = True"

definition held_open :: "startup \<Rightarrow> bool" where
  "held_open s \<longleftrightarrow> parent s = ParentForked \<or> server_holds (starter s) \<or> child_holds (child s)"

inductive startup_step :: "string list \<Rightarrow> startup \<Rightarrow> startup \<Rightarrow> bool" for cmd where
  ParentCloses: "parent s = ParentForked \<Longrightarrow> startup_step cmd s (s\<lparr>parent := ParentReads\<rparr>)"
| ParentTakes: "parent s = ParentReads \<Longrightarrow> 0 < n \<Longrightarrow> n \<le> 256 \<Longrightarrow> n \<le> length (pipe s) \<Longrightarrow>
     startup_step cmd s (s\<lparr>pipe := drop n (pipe s), answers := answers s @ [Bytes (take n (pipe s))]\<rparr>)"
| ParentEnds: "parent s = ParentReads \<Longrightarrow> pipe s = [] \<Longrightarrow> \<not> held_open s \<Longrightarrow>
     read_startup_status (answers s @ [Bytes []]) = Some r \<Longrightarrow>
     startup_step cmd s (s\<lparr>parent := ParentReports r, answers := answers s @ [Bytes []]\<rparr>)"
| PtyFails: "starter s = BeforePty \<Longrightarrow>
     startup_step cmd s (s\<lparr>starter := ServerTells e (startup_bytes cmd (ForkptyErr e))\<rparr>)"
| ServerWrites: "starter s = ServerTells e rest \<Longrightarrow> 0 < n \<Longrightarrow> n \<le> length rest \<Longrightarrow>
     startup_step cmd s (s\<lparr>starter := ServerTells e (drop n rest), pipe := pipe s @ take n rest\<rparr>)"
| ServerReturns: "starter s = ServerTells e [] \<Longrightarrow> startup_step cmd s (s\<lparr>starter := ServerFails e\<rparr>)"
| PtyMade: "starter s = BeforePty \<Longrightarrow> startup_step cmd s (s\<lparr>starter := AfterPty, child := ChildForked\<rparr>)"
| ServerCloses: "starter s = AfterPty \<Longrightarrow> startup_step cmd s (s\<lparr>starter := Serves\<rparr>)"
| ChildMarks: "child s = ChildForked \<Longrightarrow> startup_step cmd s (s\<lparr>child := BeforeExec\<rparr>)"
| ExecWorks: "child s = BeforeExec \<Longrightarrow> startup_step cmd s (s\<lparr>child := ProgramRuns\<rparr>)"
| ExecFails: "child s = BeforeExec \<Longrightarrow>
     startup_step cmd s (s\<lparr>child := ChildTells e (startup_bytes cmd (ExecErr e))\<rparr>)"
| ChildWrites: "child s = ChildTells e rest \<Longrightarrow> 0 < n \<Longrightarrow> n \<le> length rest \<Longrightarrow>
     startup_step cmd s (s\<lparr>child := ChildTells e (drop n rest), pipe := pipe s @ take n rest\<rparr>)"
| ChildReturns: "child s = ChildTells e [] \<Longrightarrow> startup_step cmd s (s\<lparr>child := ChildExits e\<rparr>)"

inductive startup_reach :: "string list \<Rightarrow> startup \<Rightarrow> bool" for cmd where
  Begin: "startup_reach cmd startup_begin"
| Move: "startup_reach cmd s \<Longrightarrow> startup_step cmd s t \<Longrightarrow> startup_reach cmd t"

subsection \<open>The invariant\<close>

text \<open>What the server and the child have decided so far, and what they have still to write.\<close>

fun decided :: "server_place \<Rightarrow> child_place \<Rightarrow> pty_answer option" where
  "decided (ServerTells e rest) c = Some (ForkptyErr e)"
| "decided (ServerFails e) c = Some (ForkptyErr e)"
| "decided p (ChildTells e rest) = Some (ExecErr e)"
| "decided p (ChildExits e) = Some (ExecErr e)"
| "decided p ProgramRuns = Some Started"
| "decided p c = None"

fun unsent :: "server_place \<Rightarrow> child_place \<Rightarrow> bytes" where
  "unsent (ServerTells e rest) c = rest"
| "unsent p (ChildTells e rest) = rest"
| "unsent p c = []"

definition told :: "string list \<Rightarrow> pty_answer option \<Rightarrow> bytes" where
  "told cmd a = (case a of None \<Rightarrow> [] | Some x \<Rightarrow> startup_bytes cmd x)"

definition piece :: "bytes \<Rightarrow> bool" where
  "piece d \<longleftrightarrow> d \<noteq> [] \<and> length d \<le> 256"

definition startup_inv :: "string list \<Rightarrow> startup \<Rightarrow> bool" where
  "startup_inv cmd s \<longleftrightarrow>
     (child s = NoChild \<longleftrightarrow> starter s \<notin> {AfterPty, Serves}) \<and>
     (\<exists>ds. list_all piece ds \<and>
        concat ds @ pipe s @ unsent (starter s) (child s) = told cmd (decided (starter s) (child s)) \<and>
        (case parent s of
           ParentReports r \<Rightarrow> answers s = map Bytes ds @ [Bytes []] \<and> pipe s = [] \<and> \<not> held_open s \<and>
             read_startup_status (answers s) = Some r
         | _ \<Rightarrow> answers s = map Bytes ds))"

lemma take_drop_rest [simp]: "take n xs @ drop n xs @ ys = xs @ ys"
  by (metis append_assoc append_take_drop_id)

lemma nothing_told [simp]: "startup_bytes cmd Started = []"
  by (simp add: startup_bytes_def)

lemma closing_decides [simp]: "decided AfterPty c = decided Serves c" "unsent AfterPty c = unsent Serves c"
  by (cases c; simp)+

lemma inv_begin: "startup_inv cmd startup_begin"
  by (simp add: startup_inv_def startup_begin_def told_def)

lemma inv_pieces:
  assumes "startup_inv cmd s"
  obtains ds where "list_all piece ds"
    "concat ds @ pipe s @ unsent (starter s) (child s) = told cmd (decided (starter s) (child s))"
    "case parent s of
       ParentReports r \<Rightarrow> answers s = map Bytes ds @ [Bytes []] \<and> pipe s = [] \<and> \<not> held_open s \<and>
         read_startup_status (answers s) = Some r
     | _ \<Rightarrow> answers s = map Bytes ds"
  using assms unfolding startup_inv_def by blast

lemma inv_step:
  assumes "startup_step cmd s t" "startup_inv cmd s"
  shows "startup_inv cmd t"
  using assms(2)
proof (rule inv_pieces)
  fix ds
  assume ds: "list_all piece ds"
    "concat ds @ pipe s @ unsent (starter s) (child s) = told cmd (decided (starter s) (child s))"
    and ans: "case parent s of
       ParentReports r \<Rightarrow> answers s = map Bytes ds @ [Bytes []] \<and> pipe s = [] \<and> \<not> held_open s \<and>
         read_startup_status (answers s) = Some r
     | _ \<Rightarrow> answers s = map Bytes ds"
  have k: "child s = NoChild \<longleftrightarrow> starter s \<notin> {AfterPty, Serves}" using assms(2) by (simp add: startup_inv_def)
  from assms(1) show ?thesis
  proof cases
    case (ParentTakes n)
    then have "take n (pipe s) \<noteq> []" by auto
    with ParentTakes ds ans k show ?thesis
      unfolding startup_inv_def
      by (intro conjI exI [of _ "ds @ [take n (pipe s)]"]) (simp_all add: piece_def)
  qed (use ds ans k in \<open>auto simp: startup_inv_def told_def held_open_def intro!: exI [of _ ds] split: parent_place.splits\<close>)
qed

lemma reach_inv: "startup_reach cmd s \<Longrightarrow> startup_inv cmd s"
  by (induction rule: startup_reach.induct) (auto intro: inv_begin inv_step)

subsection \<open>What the parent reports\<close>

definition verdict :: "string list \<Rightarrow> pty_answer \<Rightarrow> unit io_result" where
  "verdict cmd a =
     (if a = Started then Inr () else Inl (IoError Other (trim_end (chars_of (startup_bytes cmd a)))))"

lemma status_verdict:
  assumes "list_all piece ds" "concat ds = startup_bytes cmd a"
  shows "read_startup_status (map Bytes ds @ [Bytes []]) = Some (verdict cmd a)"
proof -
  have "startup_bytes cmd a = [] \<longleftrightarrow> a = Started"
    by (simp add: startup_bytes_def split: pty_answer.split)
  moreover have "list_all (\<lambda>d. d \<noteq> [] \<and> length d \<le> 256) ds" using assms(1) by (simp add: piece_def [abs_def])
  ultimately show ?thesis
    using startup_loop_pieces [of ds "[]"] assms(2) by (simp add: read_startup_status_def verdict_def)
qed

text \<open>Once nobody can write, the matter is decided and all of it has been written.\<close>

lemma all_written:
  assumes "child s = NoChild \<longleftrightarrow> starter s \<notin> {AfterPty, Serves}" "\<not> held_open s"
  obtains a where "decided (starter s) (child s) = Some a" "unsent (starter s) (child s) = []"
    "a = Started \<longleftrightarrow> child s = ProgramRuns"
  using assms by (cases "starter s"; cases "child s") (auto simp: held_open_def)

lemma report_true:
  assumes "startup_inv cmd s" "parent s = ParentReports r"
  shows "\<exists>a. decided (starter s) (child s) = Some a \<and> r = verdict cmd a \<and> (a = Started \<longleftrightarrow> child s = ProgramRuns) \<and>
    read_startup_status (answers s) = Some r"
  using assms(1)
proof (rule inv_pieces)
  fix ds
  assume ds: "list_all piece ds"
    "concat ds @ pipe s @ unsent (starter s) (child s) = told cmd (decided (starter s) (child s))"
    and ans: "case parent s of
       ParentReports r \<Rightarrow> answers s = map Bytes ds @ [Bytes []] \<and> pipe s = [] \<and> \<not> held_open s \<and>
         read_startup_status (answers s) = Some r
     | _ \<Rightarrow> answers s = map Bytes ds"
  have k: "child s = NoChild \<longleftrightarrow> starter s \<notin> {AfterPty, Serves}" "\<not> held_open s"
    using assms ans by (simp_all add: startup_inv_def)
  then show ?thesis
  proof (rule all_written)
    fix a
    assume a: "decided (starter s) (child s) = Some a" "unsent (starter s) (child s) = []"
      "a = Started \<longleftrightarrow> child s = ProgramRuns"
    with ds(2) ans assms(2) have "concat ds = startup_bytes cmd a" by (simp add: told_def)
    from status_verdict [OF ds(1) this] a ans assms(2) show ?thesis by auto
  qed
qed

subsection \<open>The start always ends\<close>

fun parent_rank :: "parent_place \<Rightarrow> nat" where
  "parent_rank ParentForked = 2"
| "parent_rank ParentReads = 1"
| "parent_rank (ParentReports r) = 0"

fun server_rank :: "server_place \<Rightarrow> nat" where
  "server_rank BeforePty = 9"
| "server_rank AfterPty = 2"
| "server_rank (ServerTells e rest) = 2"
| "server_rank p = 0"

fun child_rank :: "child_place \<Rightarrow> nat" where
  "child_rank ChildForked = 4"
| "child_rank BeforeExec = 3"
| "child_rank (ChildTells e rest) = 2"
| "child_rank p = 0"

definition startup_order :: "(startup \<times> startup) set" where
  "startup_order = measures
     [\<lambda>s. parent_rank (parent s) + server_rank (starter s) + child_rank (child s),
      \<lambda>s. length (unsent (starter s) (child s)), \<lambda>s. length (pipe s)]"

lemma wf_startup_order: "wf startup_order"
  by (simp add: startup_order_def)

lemma step_descends:
  assumes "startup_step cmd s t" "startup_inv cmd s"
  shows "(t, s) \<in> startup_order"
proof -
  have "child s = NoChild \<longleftrightarrow> starter s \<notin> {AfterPty, Serves}" using assms(2) by (simp add: startup_inv_def)
  with assms(1) show ?thesis
    by cases (auto simp: startup_order_def)
qed

lemma not_stuck:
  assumes "startup_inv cmd s" "\<forall>r. parent s \<noteq> ParentReports r"
  shows "\<exists>t. startup_step cmd s t"
proof (cases "parent s")
  case ParentForked
  then show ?thesis by (blast intro: startup_step.ParentCloses)
next
  case ParentReads
  show ?thesis
  proof (cases "held_open s")
    case False
    have k: "child s = NoChild \<longleftrightarrow> starter s \<notin> {AfterPty, Serves}" using assms(1) by (simp add: startup_inv_def)
    show ?thesis
    proof (cases "pipe s = []")
      case True
      from assms(1) obtain ds where ds: "list_all piece ds"
        "concat ds @ pipe s @ unsent (starter s) (child s) = told cmd (decided (starter s) (child s))"
        "answers s = map Bytes ds"
        by (rule inv_pieces) (simp add: ParentReads)
      from k False obtain a where "decided (starter s) (child s) = Some a" "unsent (starter s) (child s) = []"
        by (rule all_written)
      with True ds have "concat ds = startup_bytes cmd a" by (simp add: told_def)
      from startup_step.ParentEnds [OF ParentReads True False, of "verdict cmd a" cmd] status_verdict [OF ds(1) this] ds(3)
      show ?thesis by auto
    next
      case pipe: False
      then have "1 \<le> length (pipe s)" by (cases "pipe s") auto
      from startup_step.ParentTakes [OF ParentReads _ _ this] show ?thesis by auto
    qed
  next
    case True
    have w: "\<exists>n. 0 < n \<and> n \<le> length rest" if "rest \<noteq> []" for rest :: bytes
      using that by (intro exI [of _ 1]) (cases rest; simp)
    have "\<exists>t. startup_step cmd s t" if "server_holds (starter s)"
      using that
    proof (cases "starter s")
      case (ServerTells e rest)
      then show ?thesis
        using w [of rest] by (cases "rest = []") (auto dest: startup_step.intros)
    qed (auto dest: startup_step.PtyMade startup_step.ServerCloses)
    moreover have "\<exists>t. startup_step cmd s t" if "child_holds (child s)"
      using that
    proof (cases "child s")
      case (ChildTells e rest)
      then show ?thesis
        using w [of rest] by (cases "rest = []") (auto dest: startup_step.intros)
    qed (auto dest: startup_step.ChildMarks startup_step.ExecWorks)
    ultimately show ?thesis using True ParentReads by (auto simp: held_open_def)
  qed
qed (use assms(2) in simp)

subsection \<open>Properties\<close>

lemma last_newline: "trim_end (chars_of (as_bytes (m @ [CHR 0x0A]))) = trim_end m"
  unfolding chars_of_as_bytes by (simp add: trim_end_def is_space_def)

lemma verdict_cases:
  "verdict cmd Started = Inr ()"
  "verdict cmd (ForkptyErr e) = Inl (IoError Other (trim_end (''server-forkpty: '' @ err_msg e)))"
  "verdict cmd (ExecErr e) = Inl (IoError Other (trim_end (''server-execvp: '' @ hd cmd @ '': '' @ err_msg e)))"
  using last_newline [of "''server-forkpty: '' @ err_msg e"]
    last_newline [of "''server-execvp: '' @ hd cmd @ '': '' @ err_msg e"]
  by (simp_all add: verdict_def startup_bytes_def)

text \<open>C10: The report on a start is true in every interleaving of the parent, the server and the child, however the
  messages are cut in writing and reading: \<open>create_session\<close> returns success exactly when the program has been
  executed, with the socket in place and the start in the server's log, and otherwise the error of \<open>forkpty\<close> or of \<open>execvp\<close> in
  full, having removed the socket.\<close>

theorem startup_report_true:
  assumes "startup_reach cmd s" and "parent s = ParentReports r"
    and "session_alive h name w = (Some False, w1)" and "claim_path h name w1 = (Inr (p, i), w2)"
  shows "create_session h name cmd (Forked (answers s)) w =
      (Some r, if child s = ProgramRuns then server_begins h name cmd p i w2
               else remove_file p (server_begins h name cmd p i w2)) \<and>
    fs (snd (create_session h name cmd (Forked (answers s)) w)) p =
      (if child s = ProgramRuns then Some (SocketFile i) else None) \<and>
    (child s = ProgramRuns \<and> r = Inr () \<or>
     (\<exists>e. child s = ChildExits e \<and>
        r = Inl (IoError Other (trim_end (''server-execvp: '' @ hd cmd @ '': '' @ err_msg e)))) \<or>
     (\<exists>e. starter s = ServerFails e \<and> child s = NoChild \<and>
        r = Inl (IoError Other (trim_end (''server-forkpty: '' @ err_msg e)))))"
proof -
  have inv: "startup_inv cmd s" using assms(1) by (rule reach_inv)
  from report_true [OF inv assms(2)] obtain a where
    a: "decided (starter s) (child s) = Some a" "r = verdict cmd a" "a = Started \<longleftrightarrow> child s = ProgramRuns"
    "read_startup_status (answers s) = Some r" by blast
  have "child s = NoChild \<longleftrightarrow> starter s \<notin> {AfterPty, Serves}" "\<not> held_open s"
    using inv assms(2) by (auto simp: startup_inv_def)
  then have e: "a = Started \<and> child s = ProgramRuns \<or> (\<exists>e. a = ExecErr e \<and> child s = ChildExits e) \<or>
      (\<exists>e. a = ForkptyErr e \<and> starter s = ServerFails e \<and> child s = NoChild)"
    using a(1) by (cases "starter s"; cases "child s") (auto simp: held_open_def)
  have "create_session h name cmd (Forked (answers s)) w =
      (Some r, if child s = ProgramRuns then server_begins h name cmd p i w2
               else remove_file p (server_begins h name cmd p i w2))"
    using a assms(3,4) by (auto simp: create_session_def verdict_def Let_def)
  moreover from claim_path_ok [OF assms(4)] have "fs w2 p = Some (SocketFile i)" by simp
  ultimately show ?thesis
    using e a(2) by (auto simp: verdict_cases)
qed

definition failed_start :: "string list \<Rightarrow> io_error \<Rightarrow> startup" where
  "failed_start cmd e =
     \<lparr>parent = ParentReports (verdict cmd (ExecErr e)), starter = Serves, child = ChildExits e, pipe = [],
      answers = [Bytes (startup_bytes cmd (ExecErr e)), Bytes []]\<rparr>"

lemma failed_start_reached:
  assumes "length (startup_bytes cmd (ExecErr e)) \<le> 256"
  shows "startup_reach cmd (failed_start cmd e)"
proof -
  let ?m = "startup_bytes cmd (ExecErr e)"
  have m: "?m \<noteq> []" by (simp add: startup_bytes_def)
  have go: "startup_reach cmd s \<Longrightarrow> startup_step cmd s t \<Longrightarrow> t = u \<Longrightarrow> startup_reach cmd u" for s t u
    by (auto intro: startup_reach.Move)
  have "startup_reach cmd \<lparr>parent = ParentForked, starter = AfterPty, child = ChildForked, pipe = [], answers = []\<rparr>"
    by (rule go [OF startup_reach.Begin startup_step.PtyMade]) (simp_all add: startup_begin_def)
  then have "startup_reach cmd \<lparr>parent = ParentForked, starter = Serves, child = ChildForked, pipe = [], answers = []\<rparr>"
    by (rule go [OF _ startup_step.ServerCloses]) (use m assms in \<open>simp_all\<close>)
  then have "startup_reach cmd \<lparr>parent = ParentForked, starter = Serves, child = BeforeExec, pipe = [], answers = []\<rparr>"
    by (rule go [OF _ startup_step.ChildMarks]) (use m assms in \<open>simp_all\<close>)
  then have "startup_reach cmd \<lparr>parent = ParentForked, starter = Serves, child = ChildTells e ?m, pipe = [], answers = []\<rparr>"
    by (rule go [OF _ startup_step.ExecFails [where e = e]]) (use m assms in \<open>simp_all\<close>)
  then have "startup_reach cmd \<lparr>parent = ParentForked, starter = Serves, child = ChildTells e [], pipe = ?m, answers = []\<rparr>"
    by (rule go [OF _ startup_step.ChildWrites [where n = "length ?m" and rest = ?m and e = e]]) (use m assms in \<open>simp_all\<close>)
  then have "startup_reach cmd \<lparr>parent = ParentForked, starter = Serves, child = ChildExits e, pipe = ?m, answers = []\<rparr>"
    by (rule go [OF _ startup_step.ChildReturns [where e = e]]) (use m assms in \<open>simp_all\<close>)
  then have "startup_reach cmd \<lparr>parent = ParentReads, starter = Serves, child = ChildExits e, pipe = ?m, answers = []\<rparr>"
    by (rule go [OF _ startup_step.ParentCloses]) (use m assms in \<open>simp_all\<close>)
  then have "startup_reach cmd \<lparr>parent = ParentReads, starter = Serves, child = ChildExits e, pipe = [], answers = [Bytes ?m]\<rparr>"
    by (rule go [OF _ startup_step.ParentTakes [where n = "length ?m"]]) (use m assms in \<open>simp_all\<close>)
  then show ?thesis
    by (rule go [OF _ startup_step.ParentEnds [where r = "verdict cmd (ExecErr e)"]])
      (use status_verdict [of "[?m]" cmd "ExecErr e"] m assms in \<open>simp_all add: failed_start_def held_open_def piece_def\<close>)
qed

theorem startup_report_true_witness:
  "\<exists>w2. create_session demo_host ''a'' [''xx''] (Forked (answers (failed_start [''xx''] (IoError NotFound ''gone'')))) demo_world =
     (Some (Inl (IoError Other ''server-execvp: xx: gone'')), remove_file ''/h/.lich/a@h'' w2)"
proof -
  let ?e = "IoError NotFound ''gone''"
  have "startup_reach [''xx''] (failed_start [''xx''] ?e)"
    by (rule failed_start_reached) (simp add: startup_bytes_def as_bytes_def)
  moreover have "session_alive demo_host ''a'' demo_world = (Some False, snd (socket_path demo_host ''a'' demo_world))"
    by (rule demo_free) simp_all
  moreover obtain i w2 where
    "claim_path demo_host ''a'' (snd (socket_path demo_host ''a'' demo_world)) = (Inr (''/h/.lich/a@h'', i), w2)"
    using demo_claim [of "snd (socket_path demo_host ''a'' demo_world)"] socket_path_not_made [OF demo_paths(1)] by auto
  moreover have "trim_end ''server-execvp: xx: gone'' = ''server-execvp: xx: gone''"
    by (simp add: trim_end_def is_space_def)
  ultimately show ?thesis
    using startup_report_true [of "[''xx'']" "failed_start [''xx''] ?e" "verdict [''xx''] (ExecErr ?e)"]
    by (auto simp: failed_start_def verdict_cases)
qed

text \<open>C11: A start comes to its end: no run of the three processes goes on for ever, and from no state they can
  reach does it stop before the parent has its report. So \<open>read_startup_status\<close> sees the end of
  file, whatever the order: every writing end is closed in time.\<close>

theorem startup_always_reports:
  assumes "startup_reach cmd s"
  shows "(\<nexists>f. f 0 = s \<and> (\<forall>i :: nat. startup_step cmd (f i) (f (Suc i)))) \<and>
    ((\<exists>r. parent s = ParentReports r) \<or> (\<exists>t. startup_step cmd s t))"
proof -
  have "False" if f: "f 0 = s" "\<forall>i :: nat. startup_step cmd (f i) (f (Suc i))" for f
  proof -
    have inv: "startup_inv cmd (f i)" for i
      using f reach_inv [OF assms] by (induction i) (auto intro: inv_step)
    have "(f (Suc i), f i) \<in> startup_order" for i
      using f(2) inv by (blast intro: step_descends)
    with wf_startup_order show False by (auto simp: wf_iff_no_infinite_down_chain)
  qed
  with not_stuck [OF reach_inv [OF assms]] show ?thesis by blast
qed

theorem startup_always_reports_witness:
  "\<nexists>f. f 0 = startup_begin \<and> (\<forall>i :: nat. startup_step [''sh''] (f i) (f (Suc i)))"
  using startup_always_reports [OF startup_reach.Begin, of "[''sh'']"] by blast

end
