(* ===== verification/Cli.thy ===== *)
theory Cli
  imports Wire
begin

text \<open>
  The command line of \<open>main.rs\<close>: \<open>Action\<close>, \<open>Opts\<close>, \<open>parse_args\<close> with its helpers, \<open>command_args\<close>
  and the dispatch of \<open>real_main\<close>. Arguments and environment variables are strings; what the
  environment answers (\<open>env::var\<close>, \<open>isatty\<close>) is an argument. \<open>str::parse\<close> of the unsigned types is
  the standard library's: an optional plus sign, then decimal digits, refused on overflow.
\<close>

datatype action = Attach | AttachOrCreate | CreateAttach | Create | Dump | SendKeys

record opts =
  opt_action :: "action option"
  opt_name :: "string option"
  opt_rest :: "string list"
  opt_literal :: bool
  max_bytes :: nat
  max_lines :: nat
  opt_flags :: u32
  quiet :: bool
  force :: bool
  passthrough :: bool
  detach_key :: u8

definition usage_err :: io_error where
  "usage_err = IoError InvalidInput
     ''usage: lich [-a|-A|-c|-n|-d|-K] [-N bytes] [-L lines] [-x] [-p] [-r] [-q] [-l] [-f] [-e detachkey] name [command|keys...]''"

subsection \<open>Unsigned numbers\<close>

definition digit_val :: "char \<Rightarrow> nat option" where
  "digit_val c = (let n = of_char c :: nat in if 48 \<le> n \<and> n \<le> 57 then Some (n - 48) else None)"

fun parse_digits :: "nat \<Rightarrow> nat \<Rightarrow> string \<Rightarrow> nat option" where
  "parse_digits w acc [] = Some acc"
| "parse_digits w acc (c # cs) =
     (case digit_val c of
        None \<Rightarrow> None
      | Some d \<Rightarrow> (let n = 10 * acc + d in if n < 2 ^ w then parse_digits w n cs else None))"

definition parse_uint :: "nat \<Rightarrow> string \<Rightarrow> nat option" where
  "parse_uint w s =
     (case s of
        [] \<Rightarrow> None
      | c # cs \<Rightarrow>
          if cs = [] \<and> (c = CHR ''+'' \<or> c = CHR ''-'') then None
          else if c = CHR ''+'' then parse_digits w 0 cs
          else parse_digits w 0 s)"

definition parse_size :: "string option \<Rightarrow> nat io_result" where
  "parse_size v =
     (case v of
        None \<Rightarrow> Inl usage_err
      | Some s \<Rightarrow> (case parse_uint 64 s of None \<Rightarrow> Inl usage_err | Some n \<Rightarrow> Inr n))"

definition parse_detach_key :: "string \<Rightarrow> u8" where
  "parse_detach_key key =
     (let bs = as_bytes key
      in if length bs \<ge> 2 \<and> bs ! 0 = of_char (CHR ''^'') then bs ! 1 AND 31
         else case bs of [] \<Rightarrow> 28 | b # ds \<Rightarrow> b)"

subsection \<open>The arguments\<close>

text \<open>\<open>-v\<close> prints the version and ends the process.\<close>

datatype parsed = Parsed opts | VersionShown

fun next_arg :: "string list \<Rightarrow> string option" where
  "next_arg [] = None"
| "next_arg (a # args) = Some a"

definition initial_opts :: opts where
  "initial_opts =
     \<lparr>opt_action = None, opt_name = None, opt_rest = [], opt_literal = False, max_bytes = 0,
      max_lines = 0, opt_flags = 0, quiet = False, force = False, passthrough = False, detach_key = 28\<rparr>"

text \<open>The arms of the \<open>match\<close>: the options they leave and the arguments behind what they took.\<close>

datatype arm = Next opts "string list" | Version | Refuse io_error

definition sized :: "nat io_result \<Rightarrow> (nat \<Rightarrow> opts) \<Rightarrow> string list \<Rightarrow> arm" where
  "sized r f args = (case r of Inl e \<Rightarrow> Refuse e | Inr n \<Rightarrow> Next (f n) args)"

definition parse_option :: "opts \<Rightarrow> string \<Rightarrow> string list \<Rightarrow> arm" where
  "parse_option os arg args =
     (if arg = ''-a'' then Next (os\<lparr>opt_action := Some Attach\<rparr>) args
      else if arg = ''-A'' then Next (os\<lparr>opt_action := Some AttachOrCreate\<rparr>) args
      else if arg = ''-c'' then Next (os\<lparr>opt_action := Some CreateAttach\<rparr>) args
      else if arg = ''-n'' then Next (os\<lparr>opt_action := Some Create\<rparr>) args
      else if arg = ''-d'' then Next (os\<lparr>opt_action := Some Dump\<rparr>) args
      else if arg = ''-K'' then Next (os\<lparr>opt_action := Some SendKeys\<rparr>) args
      else if arg = ''-x'' then Next (os\<lparr>opt_literal := True\<rparr>) args
      else if arg = ''-q'' then Next (os\<lparr>quiet := True\<rparr>) args
      else if arg = ''-f'' then Next (os\<lparr>force := True\<rparr>) args
      else if arg = ''-p'' then Next (os\<lparr>passthrough := True\<rparr>) args
      else if arg = ''-r'' then Next (os\<lparr>opt_flags := opt_flags os OR CLIENT_READONLY\<rparr>) args
      else if arg = ''-l'' then Next (os\<lparr>opt_flags := opt_flags os OR CLIENT_LOWPRIORITY\<rparr>) args
      else if arg = ''-v'' then Version
      else if arg = ''-N'' then sized (parse_size (next_arg args)) (\<lambda>n. os\<lparr>max_bytes := n\<rparr>) (drop 1 args)
      else if arg = ''-L'' then sized (parse_size (next_arg args)) (\<lambda>n. os\<lparr>max_lines := n\<rparr>) (drop 1 args)
      else if arg = ''-e''
      then (case next_arg args of
              None \<Rightarrow> Refuse usage_err
            | Some key \<Rightarrow> Next (os\<lparr>detach_key := parse_detach_key key\<rparr>) (drop 1 args))
      else if prefix ''-N'' arg \<and> length arg > 2
      then sized (parse_size (Some (drop 2 arg))) (\<lambda>n. os\<lparr>max_bytes := n\<rparr>) args
      else if prefix ''-L'' arg \<and> length arg > 2
      then sized (parse_size (Some (drop 2 arg))) (\<lambda>n. os\<lparr>max_lines := n\<rparr>) args
      else Refuse usage_err)"

lemma sized_cases:
  "sized r f args = Next os' args' \<Longrightarrow> \<exists>n. r = Inr n \<and> os' = f n \<and> args' = args"
  by (auto simp: sized_def split: sum.splits)

lemma parse_option_next:
  "parse_option os arg args = Next os' args' \<Longrightarrow>
     (args' = args \<or> args' = drop 1 args) \<and> opt_name os' = opt_name os \<and> opt_rest os' = opt_rest os"
  by (simp add: parse_option_def split: if_split_asm option.split_asm; (drule sized_cases)?; force)

function parse_loop :: "opts \<Rightarrow> string list \<Rightarrow> parsed io_result" where
  "parse_loop os [] = Inr (Parsed os)"
| "parse_loop os (arg # args) =
     (if \<not> prefix ''-'' arg \<or> arg = ''-''
      then Inr (Parsed (os\<lparr>opt_name := Some arg, opt_rest := opt_rest os @ args\<rparr>))
      else case parse_option os arg args of
        Next os' args' \<Rightarrow> parse_loop os' args'
      | Version \<Rightarrow> Inr VersionShown
      | Refuse e \<Rightarrow> Inl e)"
  by pat_completeness auto
termination
  by (relation "measure (\<lambda>(os, args). length args)") (auto dest!: parse_option_next)

text \<open>The checks behind the loop.\<close>

definition check_opts :: "opts \<Rightarrow> opts io_result" where
  "check_opts os =
     (if max_bytes os \<noteq> 0 \<and> max_lines os \<noteq> 0 then Inl usage_err
      else if opt_action os \<noteq> Some Dump \<and> (max_bytes os \<noteq> 0 \<or> max_lines os \<noteq> 0) then Inl usage_err
      else if opt_action os \<noteq> Some SendKeys \<and> opt_literal os then Inl usage_err
      else if opt_action os = Some Dump \<and> opt_rest os \<noteq> [] then Inl usage_err
      else if opt_action os = Some SendKeys \<and> opt_rest os = [] then Inl usage_err
      else Inr os)"

definition parse_args :: "string list \<Rightarrow> parsed io_result" where
  "parse_args args =
     (case parse_loop initial_opts args of
        Inr (Parsed os) \<Rightarrow> map_sum id Parsed (check_opts os)
      | r \<Rightarrow> r)"

subsection \<open>What to run\<close>

definition command_args :: "(string \<Rightarrow> string option) \<Rightarrow> opts \<Rightarrow> string list" where
  "command_args env os =
     (if opt_rest os \<noteq> [] then opt_rest os
      else case env ''ABDUCO_CMD'' of
        Some cmd \<Rightarrow> [''/bin/sh'', ''-c'', cmd]
      | None \<Rightarrow> (case env ''SHELL'' of Some shell \<Rightarrow> [shell] | None \<Rightarrow> [''/bin/sh'']))"

text \<open>The command that \<open>real_main\<close> hands over to, with the arguments it gives it.\<close>

datatype command =
    ShowVersion
  | ListSessions
  | RunCreate string "string list" opts
  | RunCreateAttach string "string list" opts
  | RunAttach string opts
  | RunAttachOrCreate string "string list" opts
  | RunDump string nat nat
  | RunSendKeys string "string list" bool

definition default_piped :: "bool \<Rightarrow> opts \<Rightarrow> opts" where
  "default_piped tty os =
     (if opt_name os \<noteq> None \<and> \<not> tty \<and> opt_action os \<noteq> Some Dump \<and> opt_action os \<noteq> Some SendKeys
      then os\<lparr>passthrough := True, quiet := True, opt_flags := opt_flags os OR CLIENT_LOWPRIORITY,
              opt_action := (case opt_action os of None \<Rightarrow> Some Attach | a \<Rightarrow> a)\<rparr>
      else os)"

definition dispatch :: "(string \<Rightarrow> string option) \<Rightarrow> opts \<Rightarrow> command io_result" where
  "dispatch env os =
     (if opt_action os = None \<and> opt_name os = None then Inr ListSessions
      else case (opt_action os, opt_name os) of
        (None, n) \<Rightarrow> Inl usage_err
      | (Some a, None) \<Rightarrow> Inl usage_err
      | (Some a, Some n) \<Rightarrow>
          Inr (case a of
                 Create \<Rightarrow> RunCreate n (command_args env os) os
               | CreateAttach \<Rightarrow> RunCreateAttach n (command_args env os) os
               | Attach \<Rightarrow> RunAttach n os
               | AttachOrCreate \<Rightarrow> RunAttachOrCreate n (command_args env os) os
               | Dump \<Rightarrow> RunDump n (max_bytes os) (max_lines os)
               | SendKeys \<Rightarrow> RunSendKeys n (opt_rest os) (opt_literal os)))"

definition real_main :: "(string \<Rightarrow> string option) \<Rightarrow> bool \<Rightarrow> string list \<Rightarrow> command io_result" where
  "real_main env tty args =
     (case parse_args args of
        Inl e \<Rightarrow> Inl e
      | Inr VersionShown \<Rightarrow> Inr ShowVersion
      | Inr (Parsed os) \<Rightarrow> dispatch env (default_piped tty os))"

subsection \<open>Numbers: what is accepted, and its value\<close>

definition is_digit :: "char \<Rightarrow> bool" where
  "is_digit c \<longleftrightarrow> digit_val c \<noteq> None"

definition digits_value :: "nat \<Rightarrow> string \<Rightarrow> nat" where
  "digits_value acc cs = foldl (\<lambda>a c. 10 * a + the (digit_val c)) acc cs"

lemma digits_value_simps [simp]:
  "digits_value acc [] = acc" "digits_value acc (c # cs) = digits_value (10 * acc + the (digit_val c)) cs"
  "digits_value acc (cs @ [c]) = 10 * digits_value acc cs + the (digit_val c)"
  by (simp_all add: digits_value_def)

lemma digits_value_ge: "acc \<le> digits_value acc cs"
proof (induction cs arbitrary: acc)
  case (Cons c cs)
  from Cons [of "10 * acc + the (digit_val c)"] show ?case by simp
qed simp

lemma parse_digits_iff:
  "parse_digits w acc cs = Some n \<longleftrightarrow>
     list_all is_digit cs \<and> n = digits_value acc cs \<and> (cs = [] \<or> n < 2 ^ w)"
proof (induction cs arbitrary: acc)
  case (Cons c cs)
  show ?case
  proof (cases "digit_val c")
    case (Some d)
    with Cons [of "10 * acc + d"] digits_value_ge [of "10 * acc + d" cs] show ?thesis
      by (auto simp: is_digit_def Let_def)
  qed (simp add: is_digit_def)
qed auto

lemma sign_no_digit [simp]: "\<not> is_digit (CHR ''+'')" "\<not> is_digit (CHR ''-'')"
  by (simp_all add: is_digit_def digit_val_def)

lemma parse_uint_iff:
  "parse_uint w s = Some n \<longleftrightarrow>
     (\<exists>ds. (s = ds \<or> s = CHR ''+'' # ds) \<and> ds \<noteq> [] \<and> list_all is_digit ds \<and>
        n = digits_value 0 ds \<and> n < 2 ^ w)"
proof (cases s)
  case (Cons c cs)
  then show ?thesis
    by (cases "c = CHR ''+''") (auto simp: parse_uint_def parse_digits_iff simp del: digits_value_simps parse_digits.simps)
qed (simp add: parse_uint_def)

lemma digit_char_val: "d < 10 \<Longrightarrow> digit_val (digit_char d) = Some d"
  by (simp add: digit_val_def digit_char_def)

lemma show_nat_digits: "show_nat n \<noteq> [] \<and> list_all is_digit (show_nat n) \<and> digits_value 0 (show_nat n) = n"
proof (induction n rule: show_nat.induct)
  case (1 n)
  show ?case
  proof (cases "n < 10")
    case True
    then show ?thesis by (simp add: show_nat.simps is_digit_def digit_char_val)
  next
    case False
    with 1 show ?thesis by (simp add: show_nat.simps [of n] is_digit_def digit_char_val)
  qed
qed

text \<open>A size option is read exactly: \<open>parse_size\<close> accepts a nonempty string of decimal digits, with
  at most one plus sign in front, whose value fits in 64 bits, and returns that value (so it inverts
  decimal printing); everything else, a missing argument and an overflow included, is a usage error.\<close>

lemma parse_size_exact:
  "(parse_size v = Inr n \<longleftrightarrow>
     (\<exists>s ds. v = Some s \<and> (s = ds \<or> s = CHR ''+'' # ds) \<and> ds \<noteq> [] \<and> list_all is_digit ds \<and>
        n = digits_value 0 ds \<and> n < 2 ^ 64)) \<and>
   (\<forall>e. parse_size v = Inl e \<longrightarrow> e = usage_err) \<and>
   parse_size (Some (show_nat k)) = (if k < 2 ^ 64 then Inr k else Inl usage_err)"
proof -
  have i: "parse_size (Some s) = Inr m \<longleftrightarrow> parse_uint 64 s = Some m" for s m
    by (simp add: parse_size_def split: option.splits)
  have e: "parse_size u = Inl x \<Longrightarrow> x = usage_err" for u x
    by (auto simp: parse_size_def split: option.splits)
  have "parse_size (Some (show_nat k)) = Inr k" if "k < 2 ^ 64"
    using show_nat_digits [of k] that unfolding i parse_uint_iff by metis
  moreover have "parse_size (Some (show_nat k)) \<noteq> Inr m" if "\<not> k < 2 ^ 64" for m
  proof
    assume "parse_size (Some (show_nat k)) = Inr m"
    then obtain ds where d: "show_nat k = ds \<or> show_nat k = CHR ''+'' # ds" "m = digits_value 0 ds" "m < 2 ^ 64"
      unfolding i parse_uint_iff by blast
    moreover have "show_nat k \<noteq> CHR ''+'' # ds"
      using show_nat_digits [of k] by (metis list.pred_inject(2) sign_no_digit(1))
    ultimately show False using show_nat_digits [of k] that by metis
  qed
  moreover have "parse_size v = Inr n \<longleftrightarrow>
     (\<exists>s ds. v = Some s \<and> (s = ds \<or> s = CHR ''+'' # ds) \<and> ds \<noteq> [] \<and> list_all is_digit ds \<and>
        n = digits_value 0 ds \<and> n < 2 ^ 64)"
    by (cases v) (simp add: parse_size_def, simp only: i parse_uint_iff, blast)
  ultimately show ?thesis using e by (cases "parse_size (Some (show_nat k))") auto
qed

subsection \<open>What a command line means\<close>

text \<open>The specification. A switch is a word that starts with a hyphen, together with its value if it is one of the
  three that take one from the next word; the first other word is the name, and what follows it is left as it
  is. What a sequence of switches asks for is said field by field, the last of several winning.\<close>

definition is_option :: "string \<Rightarrow> bool" where
  "is_option w \<longleftrightarrow> prefix ''-'' w \<and> w \<noteq> ''-''"

definition switch :: "string list \<Rightarrow> bool" where
  "switch g =
     (case g of
        [w] \<Rightarrow> is_option w \<and> w \<notin> {''-N'', ''-L'', ''-e'', ''-v''}
      | [w, v] \<Rightarrow> w \<in> {''-N'', ''-L'', ''-e''}
      | _ \<Rightarrow> False)"

definition last_of :: "('a \<Rightarrow> 'b option) \<Rightarrow> 'a list \<Rightarrow> 'b option" where
  "last_of f gs = foldl (\<lambda>x g. case f g of None \<Rightarrow> x | Some y \<Rightarrow> Some y) None gs"

definition action_switch :: "string list \<Rightarrow> action option" where
  "action_switch g = map_of
     [([''-a''], Attach), ([''-A''], AttachOrCreate), ([''-c''], CreateAttach), ([''-n''], Create),
      ([''-d''], Dump), ([''-K''], SendKeys)] g"

definition size_switch :: "string \<Rightarrow> string list \<Rightarrow> nat option" where
  "size_switch k g =
     (case (case g of
              [w] \<Rightarrow> if prefix k w \<and> w \<noteq> k then Some (drop 2 w) else None
            | [w, v] \<Rightarrow> if w = k then Some v else None
            | _ \<Rightarrow> None) of
        None \<Rightarrow> None
      | Some v \<Rightarrow> parse_uint 64 v)"

definition key_switch :: "string list \<Rightarrow> u8 option" where
  "key_switch g = (case g of [w, v] \<Rightarrow> if w = ''-e'' then Some (parse_detach_key v) else None | _ \<Rightarrow> None)"

definition or_else :: "'a option \<Rightarrow> 'a \<Rightarrow> 'a" where
  "or_else x d = (case x of None \<Rightarrow> d | Some y \<Rightarrow> y)"

definition limit :: "string \<Rightarrow> string list list \<Rightarrow> nat" where
  "limit k sws = or_else (last_of (size_switch k) sws) 0"

definition meant :: "string list list \<Rightarrow> opts" where
  "meant sws =
     \<lparr>opt_action = last_of action_switch sws, opt_name = None, opt_rest = [],
      opt_literal = ([''-x''] \<in> set sws), max_bytes = limit ''-N'' sws, max_lines = limit ''-L'' sws,
      opt_flags = (if [''-r''] \<in> set sws then CLIENT_READONLY else 0) OR
                  (if [''-l''] \<in> set sws then CLIENT_LOWPRIORITY else 0),
      quiet = ([''-q''] \<in> set sws), force = ([''-f''] \<in> set sws), passthrough = ([''-p''] \<in> set sws),
      detach_key = or_else (last_of key_switch sws) 28\<rparr>"

lemma last_of_simps [simp]:
  "last_of f [] = None" "last_of f (gs @ [g]) = (case f g of None \<Rightarrow> last_of f gs | Some y \<Rightarrow> Some y)"
  by (simp_all add: last_of_def split: option.splits)

lemma or_else_simps [simp]: "or_else None d = d" "or_else (Some y) d = y"
  by (simp_all add: or_else_def)

lemma meant_Nil: "meant [] = initial_opts"
  by (simp add: meant_def initial_opts_def limit_def)

text \<open>One more switch.\<close>

definition add_switch :: "string list \<Rightarrow> opts \<Rightarrow> opts" where
  "add_switch g os =
     \<lparr>opt_action = (case action_switch g of None \<Rightarrow> opt_action os | Some a \<Rightarrow> Some a),
      opt_name = None, opt_rest = [], opt_literal = (opt_literal os \<or> g = [''-x'']),
      max_bytes = or_else (size_switch ''-N'' g) (max_bytes os),
      max_lines = or_else (size_switch ''-L'' g) (max_lines os),
      opt_flags = opt_flags os OR (if g = [''-r''] then CLIENT_READONLY
        else if g = [''-l''] then CLIENT_LOWPRIORITY else 0),
      quiet = (quiet os \<or> g = [''-q'']), force = (force os \<or> g = [''-f'']),
      passthrough = (passthrough os \<or> g = [''-p'']),
      detach_key = or_else (key_switch g) (detach_key os)\<rparr>"

lemma limit_snoc: "limit k (sws @ [g]) = or_else (size_switch k g) (limit k sws)"
  by (simp add: limit_def split: option.splits)

lemma flags_snoc:
  "(if r \<or> r' then CLIENT_READONLY else 0) OR (if l \<or> l' then CLIENT_LOWPRIORITY else 0) =
     ((if r then CLIENT_READONLY else 0) OR (if l then CLIENT_LOWPRIORITY else 0)) OR
     ((if r' then CLIENT_READONLY else 0) OR (if l' then CLIENT_LOWPRIORITY else 0))"
  by (simp add: CLIENT_READONLY_def CLIENT_LOWPRIORITY_def)

lemma meant_snoc: "meant (sws @ [g]) = add_switch g (meant sws)"
proof (rule opts.equality)
  show "opt_flags (meant (sws @ [g])) = opt_flags (add_switch g (meant sws))"
    using flags_snoc [of "[''-r''] \<in> set sws" "g = [''-r'']" "[''-l''] \<in> set sws" "g = [''-l'']"]
    by (auto simp: meant_def add_switch_def)
  show "opt_action (meant (sws @ [g])) = opt_action (add_switch g (meant sws))"
    by (simp add: meant_def add_switch_def split: option.splits)
  show "detach_key (meant (sws @ [g])) = detach_key (add_switch g (meant sws))"
    by (simp add: meant_def add_switch_def split: option.splits)
qed (auto simp: meant_def add_switch_def limit_snoc)

definition switch_words :: "string \<Rightarrow> string list \<Rightarrow> string list" where
  "switch_words arg args = (if arg \<in> {''-N'', ''-L'', ''-e''} then arg # take 1 args else [arg])"

lemmas switch_defs = action_switch_def size_switch_def key_switch_def switch_words_def

lemma sized_size:
  "sized (parse_size v) f args = Next os' args' \<longleftrightarrow>
     (\<exists>s n. v = Some s \<and> parse_uint 64 s = Some n \<and> os' = f n \<and> args' = args)"
  by (auto simp: sized_def parse_size_def split: option.splits)

lemma parse_option_adds:
  "parse_option os arg args = Next os' args' \<Longrightarrow> opt_name os = None \<Longrightarrow> opt_rest os = [] \<Longrightarrow>
     os' = add_switch (switch_words arg args) os"
  by (cases os; cases args; simp add: parse_option_def sized_size split: if_split_asm option.split_asm;
      force simp: prefix_def add_switch_def switch_defs)

lemma parse_option_switch:
  "parse_option os arg args = Next os' args' \<Longrightarrow> is_option arg \<Longrightarrow>
     switch (switch_words arg args) \<and> arg # args = switch_words arg args @ args'"
  by (cases args; simp add: parse_option_def sized_size split: if_split_asm option.split_asm;
      force simp: switch_def switch_words_def)

text \<open>The loop reads the command line that way.\<close>

lemma parse_option_version: "parse_option os arg args = Version \<Longrightarrow> arg = ''-v''"
  by (auto simp: parse_option_def sized_def split: if_splits option.splits sum.splits)

lemma parse_loop_meaning:
  "parse_loop (meant sws0) args = Inr r \<Longrightarrow>
     \<exists>sws tail. args = concat sws @ tail \<and> list_all switch sws \<and>
       (case tail of
          [] \<Rightarrow> r = Parsed (meant (sws0 @ sws))
        | w # rest \<Rightarrow>
            if is_option w then w = ''-v'' \<and> r = VersionShown
            else r = Parsed ((meant (sws0 @ sws))\<lparr>opt_name := Some w, opt_rest := rest\<rparr>))"
proof (induction "length args" arbitrary: sws0 args rule: less_induct)
  case less
  show ?case
  proof (cases args)
    case Nil
    with less.prems show ?thesis by (intro exI [of _ "[]"]) auto
  next
    case (Cons arg rest)
    note p = less.prems [unfolded Cons parse_loop.simps]
    have no_name: "opt_name (meant sws0) = None" "opt_rest (meant sws0) = []" by (simp_all add: meant_def)
    show ?thesis
    proof (cases "is_option arg")
      case False
      with p Cons no_name show ?thesis
        by (intro exI [of _ "[]"] exI [of _ args]) (auto simp: is_option_def)
    next
      case True
      then have o: "\<not> (\<not> prefix ''-'' arg \<or> arg = ''-'')" by (simp add: is_option_def)
      show ?thesis
      proof (cases "parse_option (meant sws0) arg rest")
        case (Next os' args')
        let ?g = "switch_words arg rest"
        have s: "switch ?g" "arg # rest = ?g @ args'" using parse_option_switch [OF Next True] by simp_all
        have l: "parse_loop (meant (sws0 @ [?g])) args' = Inr r"
          using p o Next parse_option_adds [OF Next no_name] by (simp add: meant_snoc)
        have "length args' < length args" using parse_option_next [OF Next] Cons by auto
        from less.hyps [OF this l] obtain sws tail where "args' = concat sws @ tail" "list_all switch sws"
          "case tail of [] \<Rightarrow> r = Parsed (meant ((sws0 @ [?g]) @ sws))
           | w # rest \<Rightarrow> if is_option w then w = ''-v'' \<and> r = VersionShown
               else r = Parsed ((meant ((sws0 @ [?g]) @ sws))\<lparr>opt_name := Some w, opt_rest := rest\<rparr>)"
          by blast
        with s Cons show ?thesis by (intro exI [of _ "?g # sws"] exI [of _ tail]) (simp split: list.splits)
      next
        case Version
        with p o Cons True parse_option_version [OF Version] show ?thesis
          by (intro exI [of _ "[]"] exI [of _ args]) simp
      next
        case (Refuse e)
        with p o show ?thesis by simp
      qed
    qed
  qed
qed

definition chosen :: "bool \<Rightarrow> string list list \<Rightarrow> action option" where
  "chosen tty sws = (case last_of action_switch sws of None \<Rightarrow> if tty then None else Some Attach | Some a \<Rightarrow> Some a)"

definition to_run :: "(string \<Rightarrow> string option) \<Rightarrow> string list \<Rightarrow> string list" where
  "to_run env rest =
     (if rest \<noteq> [] then rest
      else case env ''ABDUCO_CMD'' of
        Some cmd \<Rightarrow> [''/bin/sh'', ''-c'', cmd]
      | None \<Rightarrow> [or_else (env ''SHELL'') ''/bin/sh''])"

definition asked :: "bool \<Rightarrow> string list list \<Rightarrow> string \<Rightarrow> string list \<Rightarrow> action \<Rightarrow> opts" where
  "asked tty sws n rest a =
     (meant sws)\<lparr>opt_action := Some a, opt_name := Some n, opt_rest := rest,
       opt_flags := opt_flags (meant sws) OR (if tty then 0 else CLIENT_LOWPRIORITY),
       quiet := (quiet (meant sws) \<or> \<not> tty), passthrough := (passthrough (meant sws) \<or> \<not> tty)\<rparr>"

definition handed :: "(string \<Rightarrow> string option) \<Rightarrow> bool \<Rightarrow> string list list \<Rightarrow> string \<Rightarrow> string list \<Rightarrow> action \<Rightarrow> command" where
  "handed env tty sws n rest a =
     (case a of
        Create \<Rightarrow> RunCreate n (to_run env rest) (asked tty sws n rest a)
      | CreateAttach \<Rightarrow> RunCreateAttach n (to_run env rest) (asked tty sws n rest a)
      | Attach \<Rightarrow> RunAttach n (asked tty sws n rest a)
      | AttachOrCreate \<Rightarrow> RunAttachOrCreate n (to_run env rest) (asked tty sws n rest a)
      | Dump \<Rightarrow> RunDump n (limit ''-N'' sws) (limit ''-L'' sws)
      | SendKeys \<Rightarrow> RunSendKeys n rest ([''-x''] \<in> set sws))"

definition consistent :: "string list list \<Rightarrow> action option \<Rightarrow> string list \<Rightarrow> bool" where
  "consistent sws a rest \<longleftrightarrow>
     (if a = Some Dump then (limit ''-N'' sws = 0 \<or> limit ''-L'' sws = 0) \<and> rest = []
      else limit ''-N'' sws = 0 \<and> limit ''-L'' sws = 0) \<and>
     (if a = Some SendKeys then rest \<noteq> [] else [''-x''] \<notin> set sws)"

lemma check_meant:
  "check_opts ((meant sws)\<lparr>opt_name := n, opt_rest := rest\<rparr>) = Inr os \<longleftrightarrow>
     os = (meant sws)\<lparr>opt_name := n, opt_rest := rest\<rparr> \<and> consistent sws (last_of action_switch sws) rest"
  by (auto simp: check_opts_def consistent_def meant_def)

lemma default_piped_keeps [simp]:
  "opt_name (default_piped tty os) = opt_name os" "opt_rest (default_piped tty os) = opt_rest os"
  "max_bytes (default_piped tty os) = max_bytes os" "max_lines (default_piped tty os) = max_lines os"
  "opt_literal (default_piped tty os) = opt_literal os"
  by (simp_all add: default_piped_def)

lemma dispatch_meant:
  assumes "dispatch env (default_piped tty ((meant sws)\<lparr>opt_name := Some n, opt_rest := rest\<rparr>)) = Inr cmd"
  obtains a where "chosen tty sws = Some a"
    "cmd = handed env tty sws n rest a"
proof -
  let ?os = "default_piped tty ((meant sws)\<lparr>opt_name := Some n, opt_rest := rest\<rparr>)"
  have ch: "opt_action ?os = chosen tty sws" "opt_name ?os = Some n" "opt_rest ?os = rest"
    by (auto simp: default_piped_def chosen_def meant_def split: option.splits)
  then obtain a where a: "chosen tty sws = Some a" using assms by (cases "chosen tty sws") (auto simp: dispatch_def)
  have r: "command_args env ?os = to_run env rest"
    by (auto simp: command_args_def to_run_def ch or_else_def split: option.splits)
  have k: "?os = asked tty sws n rest a" if "a \<noteq> Dump" "a \<noteq> SendKeys"
    using a that by (auto simp: asked_def default_piped_def chosen_def meant_def split: option.splits if_splits)
  have m: "max_bytes ?os = limit ''-N'' sws" "max_lines ?os = limit ''-L'' sws" "opt_literal ?os = ([''-x''] \<in> set sws)"
    by (simp_all add: meant_def)
  have "dispatch env os = Inr cmd \<Longrightarrow> opt_action os = Some a \<Longrightarrow> opt_name os = Some n \<Longrightarrow>
      cmd = (case a of
         Create \<Rightarrow> RunCreate n (command_args env os) os
       | CreateAttach \<Rightarrow> RunCreateAttach n (command_args env os) os
       | Attach \<Rightarrow> RunAttach n os
       | AttachOrCreate \<Rightarrow> RunAttachOrCreate n (command_args env os) os
       | Dump \<Rightarrow> RunDump n (max_bytes os) (max_lines os)
       | SendKeys \<Rightarrow> RunSendKeys n (opt_rest os) (opt_literal os))" for os
    by (simp add: dispatch_def)
  from this [OF assms ch(1) [unfolded a] ch(2)] show ?thesis
    unfolding r ch(3) m using that [OF a] k by (cases a) (simp_all add: handed_def)
qed

subsection \<open>Properties\<close>

text \<open>C32: The command line means what its words say: it is a sequence of switches, each with its value, followed by
  \<open>-v\<close> (the version is shown), by nothing (the sessions are listed), or by a first word that is no
  switch. That word is the session's name, whatever it looks like among the values before it, and the words
  behind it are left as they are, as the command or the keys; the action is the last one named (attach
  if the input is not a terminal and none is), the limits are the values of the last \<open>-N\<close> and \<open>-L\<close>, and
  the options handed over are those the switches say. Limits go with a dump only and not together,
  \<open>-x\<close> with keys only, keys are at least one, and a session always has a command to run.\<close>

theorem command_line_meaning:
  assumes "real_main env tty args = Inr cmd"
  shows "\<exists>sws tail. args = concat sws @ tail \<and> list_all switch sws \<and>
    (case tail of
       [] \<Rightarrow> cmd = ListSessions \<and> last_of action_switch sws = None \<and> consistent sws None []
     | n # rest \<Rightarrow>
         if is_option n then n = ''-v'' \<and> cmd = ShowVersion
         else consistent sws (last_of action_switch sws) rest \<and>
           (\<exists>a. chosen tty sws = Some a \<and> cmd = handed env tty sws n rest a))"
proof -
  obtain r where r: "parse_loop (meant []) args = Inr r"
    using assms by (auto simp: meant_Nil real_main_def parse_args_def split: sum.splits)
  then obtain sws tail where w: "args = concat sws @ tail" "list_all switch sws"
    and t: "case tail of
          [] \<Rightarrow> r = Parsed (meant sws)
        | w # rest \<Rightarrow>
            if is_option w then w = ''-v'' \<and> r = VersionShown
            else r = Parsed ((meant sws)\<lparr>opt_name := Some w, opt_rest := rest\<rparr>)"
    using parse_loop_meaning [of "[]" args r, unfolded append_Nil] by blast
  have m: "real_main env tty args = (case r of
      VersionShown \<Rightarrow> Inr ShowVersion
    | Parsed os \<Rightarrow> (case check_opts os of Inl e \<Rightarrow> Inl e | Inr os' \<Rightarrow> dispatch env (default_piped tty os')))"
    using r by (simp add: meant_Nil real_main_def parse_args_def split: parsed.splits sum.splits)
  show ?thesis
  proof (cases tail)
    case Nil
    with t m assms obtain os where "check_opts (meant sws) = Inr os" "dispatch env (default_piped tty os) = Inr cmd"
      by (auto split: sum.splits)
    moreover have "(meant sws)\<lparr>opt_name := None, opt_rest := []\<rparr> = meant sws" by (simp add: meant_def)
    ultimately have "consistent sws (last_of action_switch sws) [] \<and> dispatch env (default_piped tty (meant sws)) = Inr cmd"
      using check_meant [where sws = sws and n = None and rest = "[]" and os = os] by simp
    moreover from this have "cmd = ListSessions \<and> last_of action_switch sws = None"
      by (auto simp: dispatch_def default_piped_def meant_def split: option.splits if_splits)
    ultimately show ?thesis using w Nil by (intro exI [of _ sws] exI [of _ tail]) simp
  next
    case (Cons n rest)
    show ?thesis
    proof (cases "is_option n")
      case True
      with t m assms w Cons show ?thesis by (intro exI [of _ sws] exI [of _ tail]) simp
    next
      case False
      with t m assms Cons obtain os where "check_opts ((meant sws)\<lparr>opt_name := Some n, opt_rest := rest\<rparr>) = Inr os"
        and d: "dispatch env (default_piped tty os) = Inr cmd"
        by (auto split: sum.splits)
      then have "os = (meant sws)\<lparr>opt_name := Some n, opt_rest := rest\<rparr>" "consistent sws (last_of action_switch sws) rest"
        by (simp_all add: check_meant)
      with d w Cons False show ?thesis
        by (intro exI [of _ sws] exI [of _ tail]) (auto elim: dispatch_meant)
    qed
  qed
qed

lemma demo_line:
  "real_main (\<lambda>v. None) True [''-n'', ''-e'', ''^a'', ''s'', ''-x''] =
     Inr (RunCreate ''s'' [''-x''] (asked True [[''-n''], [''-e'', ''^a'']] ''s'' [''-x''] Create))"
  by (simp add: real_main_def parse_args_def parse_option_def initial_opts_def check_opts_def default_piped_def
      dispatch_def command_args_def asked_def meant_def last_of_def limit_def switch_defs)

theorem command_line_meaning_witness:
  "\<exists>sws. [''-n'', ''-e'', ''^a'', ''s'', ''-x''] = concat sws @ ''s'' # [''-x''] \<and> list_all switch sws \<and>
     chosen True sws = Some Create \<and> limit ''-N'' sws = 0"
proof -
  let ?c = "RunCreate ''s'' [''-x''] (asked True [[''-n''], [''-e'', ''^a'']] ''s'' [''-x''] Create)"
  from command_line_meaning [OF demo_line] obtain sws tail where
    s: "[''-n'', ''-e'', ''^a'', ''s'', ''-x''] = concat sws @ tail" "list_all switch sws"
    and t: "case tail of
       [] \<Rightarrow> ?c = ListSessions \<and> last_of action_switch sws = None \<and> consistent sws None []
     | n # rest \<Rightarrow>
         if is_option n then n = ''-v'' \<and> ?c = ShowVersion
         else consistent sws (last_of action_switch sws) rest \<and>
           (\<exists>a. chosen True sws = Some a \<and> ?c = handed (\<lambda>v. None) True sws n rest a)" by blast
  from t obtain n rest a where w: "tail = n # rest" "consistent sws (last_of action_switch sws) rest"
    "chosen True sws = Some a"
    "?c = handed (\<lambda>v. None) True sws n rest a"
    by (cases tail) (auto split: if_splits)
  from w(4) have "a = Create" "n = ''s''" "to_run (\<lambda>v. None) rest = [''-x'']"
    by (cases a; simp add: handed_def)+
  moreover from this have "rest = [''-x'']" by (auto simp: to_run_def split: if_splits)
  moreover from w(3) \<open>a = Create\<close> have "last_of action_switch sws = Some Create"
    by (auto simp: chosen_def split: option.splits)
  ultimately show ?thesis using s w by (intro exI [of _ sws]) (simp add: consistent_def)
qed

end
