(* ===== verification/ClientLoop.thy ===== *)
theory ClientLoop
  imports ClientCalls Cli Handlers
begin

text \<open>
  \<open>lich -a\<close>: \<open>client_loop\<close> and \<open>attach_session\<close> of \<open>main.rs\<close> with \<open>send_resize\<close>,
  \<open>current_winsize\<close> and \<open>env_u16\<close>. The state is the connection, the standard input as the library
  buffers it (\<open>Stdin\<close> holds a \<open>BufReader\<close> of 8 KiB in front of the descriptor, which \<open>select\<close> does
  not see), the standard output, what happens to the terminal's mode, and the static that the
  \<open>SIGWINCH\<close> handler sets. One \<open>round\<close> is one turn of the loop as the outside decides it: whether
  \<open>SIGWINCH\<close> has come since the last \<open>select\<close> returned, what \<open>select\<close> answers (and, when it fails, whether
  \<open>SIGWINCH\<close> came while it waited), and the window size.
\<close>

subsection \<open>State\<close>

record termios =
  c_iflag :: u32
  c_oflag :: u32
  c_lflag :: u32
  c_cflag :: u32
  c_cc :: "nat \<Rightarrow> u8"

text \<open>The constants of \<open>termios.h\<close>, which the source takes from the libc crate; flags have the 32 bits of
  the Linux target.\<close>

record termios_consts =
  IGNBRK :: u32
  BRKINT :: u32
  PARMRK :: u32
  ISTRIP :: u32
  INLCR :: u32
  IGNCR :: u32
  ICRNL :: u32
  IXON :: u32
  IXOFF :: u32
  OPOST :: u32
  ECHO :: u32
  ECHONL :: u32
  ICANON :: u32
  ISIG :: u32
  IEXTEN :: u32
  CSIZE :: u32
  PARENB :: u32
  CS8 :: u32
  VMIN :: nat
  VTIME :: nat

text \<open>
  What is done to the terminal: \<open>tcsetattr\<close> at once, or flushing pending input, the two escape
  sequences, and the lines printed on the standard error.
\<close>

datatype tty_effect = SetNow termios | SetFlush termios | ClearScreen | ShowCursor | Info string

record attach_io =
  conn :: sock
  stdin_buf :: bytes
  stdin_rx :: "read_answer list"
  stdout_tx :: "write_answer list"
  shown :: bytes
  tty :: "tty_effect list"
  signal_flags :: statics

datatype select_answer =
    SelectErr io_error bool
  | Ready bool bool

record round =
  signalled :: bool
  answer :: select_answer
  winsize :: "(u16 \<times> u16) option"

text \<open>The variants of the source's \<open>ClientStatus\<close>, in its order.\<close>

datatype client_status = Detached | LostIo | Exited i32

definition on_conn :: "(sock, 'a) call \<Rightarrow> (attach_io, 'a) call" where
  "on_conn m st = map_option (\<lambda>(r, s). (r, st\<lparr>conn := s\<rparr>)) (m (conn st))"

subsection \<open>Window size\<close>

definition env_u16 :: "(string \<Rightarrow> string option) \<Rightarrow> string \<Rightarrow> u16 option" where
  "env_u16 env name =
     (case env name of
        None \<Rightarrow> None
      | Some s \<Rightarrow>
          (case parse_uint 16 s of
             None \<Rightarrow> None
           | Some n \<Rightarrow> if n \<noteq> 0 then Some (word_of_nat n) else None))"

definition current_winsize :: "(string \<Rightarrow> string option) \<Rightarrow> (u16 \<times> u16) option \<Rightarrow> u16 \<times> u16" where
  "current_winsize env ws =
     (case ws of
        Some (rows, cols) \<Rightarrow>
          if rows = 0 \<or> cols = 0
          then (case env_u16 env ''LICH_ROWS'' of None \<Rightarrow> 25 | Some r \<Rightarrow> r,
                case env_u16 env ''LICH_COLS'' of None \<Rightarrow> 80 | Some c \<Rightarrow> c)
          else (rows, cols)
      | None \<Rightarrow>
          (case env_u16 env ''LICH_ROWS'' of None \<Rightarrow> 25 | Some r \<Rightarrow> r,
           case env_u16 env ''LICH_COLS'' of None \<Rightarrow> 80 | Some c \<Rightarrow> c))"

definition resize_packet :: "u16 \<times> u16 \<Rightarrow> packet" where
  "resize_packet ws = \<lparr>mtyp = MSG_RESIZE, payload = u16_to_ne_bytes (fst ws) @ u16_to_ne_bytes (snd ws)\<rparr>"

definition send_resize :: "(string \<Rightarrow> string option) \<Rightarrow> (u16 \<times> u16) option \<Rightarrow> (sock, unit) call" where
  "send_resize env ws = send_packet_blocking (resize_packet (current_winsize env ws))"

subsection \<open>Standard input and output\<close>

definition stdin_read :: "nat \<Rightarrow> (attach_io, bytes) call" where
  "stdin_read n st =
     (if stdin_buf st \<noteq> []
      then Some (Inr (take n (stdin_buf st)), st\<lparr>stdin_buf := drop n (stdin_buf st)\<rparr>)
      else case sys_read 8192 (stdin_rx st) of
        None \<Rightarrow> None
      | Some (Inl e, rs) \<Rightarrow> Some (Inl e, st\<lparr>stdin_rx := rs\<rparr>)
      | Some (Inr bs, rs) \<Rightarrow> Some (Inr (take n bs), st\<lparr>stdin_rx := rs, stdin_buf := drop n bs\<rparr>))"

definition stdout_write :: "bytes \<Rightarrow> (attach_io, unit) call" where
  "stdout_write bs st =
     map_option (\<lambda>(r, acc, ws). (r, st\<lparr>stdout_tx := ws, shown := shown st @ acc\<rparr>))
       (write_loop Blocking (IoError WriteZero ''failed to write whole buffer'') bs (stdout_tx st))"

subsection \<open>One turn of the loop\<close>

text \<open>The match on a received packet; \<open>None\<close> goes on.\<close>

definition handle_server_packet ::
  "opts \<Rightarrow> (string \<Rightarrow> string option) \<Rightarrow> (u16 \<times> u16) option \<Rightarrow> packet \<Rightarrow>
     (attach_io, client_status option) call" where
  "handle_server_packet os env ws pkt =
     (if mtyp pkt = MSG_CONTENT \<and> \<not> passthrough os
      then and_then (stdout_write (payload pkt)) (\<lambda>u. return_ok None)
      else if mtyp pkt = MSG_CONTENT then return_ok None
      else if mtyp pkt = MSG_RESIZE then and_then (on_conn (send_resize env ws)) (\<lambda>u. return_ok None)
      else if mtyp pkt = MSG_EXIT
      then (\<lambda>st. case on_conn (send_packet_blocking pkt) st of
              None \<Rightarrow> None
            | Some (r, st') \<Rightarrow>
                return_ok (Some (Exited (case read_u32 (payload pkt) of None \<Rightarrow> 0 | Some c \<Rightarrow> c))) st')
      else return_ok None)"

definition socket_part ::
  "opts \<Rightarrow> (string \<Rightarrow> string option) \<Rightarrow> (u16 \<times> u16) option \<Rightarrow> (attach_io, client_status option) call" where
  "socket_part os env ws st =
     (case on_conn recv_packet_blocking st of
        None \<Rightarrow> None
      | Some (Inl e, st') \<Rightarrow> return_ok (Some LostIo) st'
      | Some (Inr pkt, st') \<Rightarrow> handle_server_packet os env ws pkt st')"

definition stdin_part :: "opts \<Rightarrow> (attach_io, client_status option) call" where
  "stdin_part os st =
     (case stdin_read MAX_PAYLOAD st of
        None \<Rightarrow> None
      | Some (Inl e, st') \<Rightarrow>
          if err_kind e = Interrupted then return_ok None st' else Some (Inl e, st')
      | Some (Inr bs, st') \<Rightarrow>
          if bs = [] then return_ok (Some Detached) st'
          else if bs ! 0 = detach_key os
          then and_then (on_conn (send_packet_blocking \<lparr>mtyp = MSG_DETACH, payload = []\<rparr>))
                 (\<lambda>u. return_ok (Some Detached)) st'
          else if opt_flags os AND CLIENT_READONLY = 0
          then and_then (on_conn (send_packet_blocking \<lparr>mtyp = MSG_CONTENT, payload = bs\<rparr>))
                 (\<lambda>u. return_ok None) st'
          else return_ok None st')"

text \<open>The handler runs, and \<open>WINCH_PENDING.swap(false, ..)\<close>.\<close>

definition winch_arrives :: "bool \<Rightarrow> attach_io \<Rightarrow> attach_io" where
  "winch_arrives b st = (if b then st\<lparr>signal_flags := handle_sigwinch (signal_flags st)\<rparr> else st)"

definition clear_winch :: "attach_io \<Rightarrow> attach_io" where
  "clear_winch st = st\<lparr>signal_flags := (signal_flags st)\<lparr>WINCH_PENDING := False\<rparr>\<rparr>"

definition client_turn ::
  "opts \<Rightarrow> (string \<Rightarrow> string option) \<Rightarrow> round \<Rightarrow> (attach_io, client_status option) call" where
  "client_turn os env r st =
     (let st1 = winch_arrives (signalled r) st
      in case answer r of
        SelectErr e winch \<Rightarrow>
          (if err_kind e = Interrupted
           then let st2 = winch_arrives winch st1
                in if WINCH_PENDING (signal_flags st2)
                   then and_then (on_conn (send_resize env (winsize r))) (\<lambda>u. return_ok None) (clear_winch st2)
                   else return_ok None (clear_winch st2)
           else Some (Inl e, st1))
      | Ready sock_ready stdin_ready \<Rightarrow>
          and_then (if sock_ready then socket_part os env (winsize r) else return_ok None)
            (\<lambda>v. case v of
               Some status \<Rightarrow> return_ok (Some status)
             | None \<Rightarrow> if stdin_ready then stdin_part os else return_ok None) st1)"

text \<open>The loop over the turns observed: still running, held up in a call, or left.\<close>

datatype client_result =
    Turning attach_io
  | Held
  | Left "client_status io_result" attach_io

fun client_loop ::
  "opts \<Rightarrow> (string \<Rightarrow> string option) \<Rightarrow> round list \<Rightarrow> attach_io \<Rightarrow> client_result" where
  "client_loop os env [] st = Turning st"
| "client_loop os env (r # rs) st =
     (case client_turn os env r st of
        None \<Rightarrow> Held
      | Some (Inl e, st') \<Rightarrow> Left (Inl e) st'
      | Some (Inr (Some status), st') \<Rightarrow> Left (Inr status) st'
      | Some (Inr None, st') \<Rightarrow> client_loop os env rs st')"

subsection \<open>The whole command\<close>

text \<open>\<open>RawMode::enter\<close> and its \<open>drop\<close>; \<open>attr\<close> is what \<open>tcgetattr\<close> answers.\<close>

definition make_raw :: "termios_consts \<Rightarrow> termios \<Rightarrow> termios" where
  "make_raw k t =
     t\<lparr>c_iflag := c_iflag t AND NOT (IGNBRK k OR BRKINT k OR PARMRK k OR ISTRIP k OR INLCR k OR
          IGNCR k OR ICRNL k OR IXON k OR IXOFF k),
       c_oflag := c_oflag t AND NOT (OPOST k),
       c_lflag := c_lflag t AND NOT (ECHO k OR ECHONL k OR ICANON k OR ISIG k OR IEXTEN k),
       c_cflag := (c_cflag t AND NOT (CSIZE k OR PARENB k)) OR CS8 k,
       c_cc := (c_cc t)(VMIN k := 1, VTIME k := 0)\<rparr>"

definition raw_enter ::
  "opts \<Rightarrow> termios_consts \<Rightarrow> bool \<Rightarrow> termios option \<Rightarrow> attach_io \<Rightarrow> termios option \<times> attach_io" where
  "raw_enter os k isatty attr st =
     (if passthrough os \<or> \<not> isatty then (None, st)
      else case attr of
        None \<Rightarrow> (None, st)
      | Some t \<Rightarrow> (Some t, st\<lparr>tty := tty st @ [SetNow (make_raw k t), ClearScreen]\<rparr>))"

definition raw_drop :: "termios option \<Rightarrow> attach_io \<Rightarrow> attach_io" where
  "raw_drop saved st =
     (case saved of
        None \<Rightarrow> st
      | Some t \<Rightarrow> st\<lparr>tty := tty st @ [SetFlush t, ShowCursor]\<rparr>)"

definition info_line :: "opts \<Rightarrow> string \<Rightarrow> string \<Rightarrow> attach_io \<Rightarrow> attach_io" where
  "info_line os name msg st =
     (if quiet os then st else st\<lparr>tty := tty st @ [Info (''lich: '' @ name @ '': '' @ msg @ [CHR 0x0D, CHR 0x0A])]\<rparr>)"

datatype attach_result =
    Attached attach_io
  | AttachHeld
  | AttachFailed io_error attach_io
  | Finished attach_io
  | ExitProcess i32 attach_io

definition attach_end :: "string \<Rightarrow> bool \<Rightarrow> opts \<Rightarrow> client_status \<Rightarrow> attach_io \<Rightarrow> attach_result" where
  "attach_end name terminate os status st =
     (case status of
        Detached \<Rightarrow> Finished (info_line os name ''detached'' st)
      | LostIo \<Rightarrow> Finished (info_line os name
          ''disconnected (no MSG_EXIT received; server may still be alive)'' st)
      | Exited code \<Rightarrow>
          (let st' = info_line os name (''session terminated with exit status '' @ show_int (sint code)) st
           in if terminate then ExitProcess code st' else Finished st'))"

text \<open>\<open>attach_session\<close> on the stream that \<open>connect_session\<close> returned.\<close>

definition attach_greet ::
  "opts \<Rightarrow> (string \<Rightarrow> string option) \<Rightarrow> (u16 \<times> u16) option \<Rightarrow> (sock, unit) call" where
  "attach_greet os env ws =
     and_then recv_packet_blocking (\<lambda>pid.
     and_then (send_packet_blocking \<lparr>mtyp = MSG_ATTACH, payload = u32_to_ne_bytes (opt_flags os)\<rparr>) (\<lambda>u.
       send_resize env ws))"

definition attach_session ::
  "string \<Rightarrow> bool \<Rightarrow> opts \<Rightarrow> (string \<Rightarrow> string option) \<Rightarrow> (u16 \<times> u16) option \<Rightarrow> termios_consts \<Rightarrow> bool \<Rightarrow>
     termios option \<Rightarrow> round list \<Rightarrow> attach_io \<Rightarrow> attach_result" where
  "attach_session name terminate os env ws k isatty attr rounds st =
     (case on_conn (attach_greet os env ws) st of
        None \<Rightarrow> AttachHeld
      | Some (Inl e, st1) \<Rightarrow> AttachFailed e st1
      | Some (Inr u, st1) \<Rightarrow>
          (case raw_enter os k isatty attr st1 of
             (saved, st2) \<Rightarrow>
               (case client_loop os env rounds st2 of
                  Turning st3 \<Rightarrow> Attached st3
                | Held \<Rightarrow> AttachHeld
                | Left (Inl e) st3 \<Rightarrow> AttachFailed e (raw_drop saved st3)
                | Left (Inr status) st3 \<Rightarrow> attach_end name terminate os status (raw_drop saved st3))))"

end
