(* ===== verification/Relay.thy ===== *)
theory Relay
  imports ClientLoop
begin

text \<open>
  What an attached client does, over any number of turns of its loop: it relays (\<open>progress\<close>), it
  leaves the terminal's mode alone until it ends, and it ends with the session's exit status; then
  the properties of \<open>lich -a\<close>.
\<close>

subsection \<open>What a stretch of the loop has done\<close>

definition pending :: "attach_io \<Rightarrow> bytes" where
  "pending st = stdin_buf st @ readable (stdin_rx st)"

text \<open>
  \<open>progress os st st'\<close>: between the two states packets \<open>ps\<close> were received, packets \<open>qs\<close> sent
  and bytes \<open>ds\<close> taken from the standard input; the screen shows what the packets say, and the
  content sent is what was typed, unless the client is read-only.
\<close>

definition progress :: "opts \<Rightarrow> attach_io \<Rightarrow> attach_io \<Rightarrow> bool" where
  "progress os st st' \<longleftrightarrow>
     (\<exists>ps qs ds. list_all packet_ok ps \<and>
        readable (rx (conn st)) = encode ps @ readable (rx (conn st')) \<and>
        shown st' = shown st @ (if passthrough os then [] else contents ps) \<and>
        wire (conn st') = wire (conn st) @ encode qs \<and>
        pending st = ds @ pending st' \<and>
        contents qs = (if opt_flags os AND CLIENT_READONLY = 0 then ds else []) \<and>
        (\<forall>q \<in> set qs. packet_ok q \<and> (mtyp q = MSG_CONTENT \<or> mtyp q = MSG_RESIZE)))"

lemma progressI:
  assumes "list_all packet_ok ps" and "readable (rx (conn st)) = encode ps @ readable (rx (conn st'))"
    "shown st' = shown st @ (if passthrough os then [] else contents ps)"
    "wire (conn st') = wire (conn st) @ encode qs"
    "pending st = ds @ pending st'"
    "contents qs = (if opt_flags os AND CLIENT_READONLY = 0 then ds else [])"
    "\<forall>q \<in> set qs. packet_ok q \<and> (mtyp q = MSG_CONTENT \<or> mtyp q = MSG_RESIZE)"
  shows "progress os st st'"
  unfolding progress_def using assms by blast

lemma progress_refl: "progress os st st"
  by (rule progressI [where ps = "[]" and qs = "[]" and ds = "[]"]) simp_all

lemma progress_trans:
  assumes "progress os st st1" "progress os st1 st2"
  shows "progress os st st2"
proof -
  from assms(1) obtain ps qs ds where a:
    "list_all packet_ok ps" "readable (rx (conn st)) = encode ps @ readable (rx (conn st1))"
    "shown st1 = shown st @ (if passthrough os then [] else contents ps)"
    "wire (conn st1) = wire (conn st) @ encode qs" "pending st = ds @ pending st1"
    "contents qs = (if opt_flags os AND CLIENT_READONLY = 0 then ds else [])"
    "\<forall>q \<in> set qs. packet_ok q \<and> (mtyp q = MSG_CONTENT \<or> mtyp q = MSG_RESIZE)"
    unfolding progress_def by blast
  from assms(2) obtain ps' qs' ds' where b:
    "list_all packet_ok ps'" "readable (rx (conn st1)) = encode ps' @ readable (rx (conn st2))"
    "shown st2 = shown st1 @ (if passthrough os then [] else contents ps')"
    "wire (conn st2) = wire (conn st1) @ encode qs'" "pending st1 = ds' @ pending st2"
    "contents qs' = (if opt_flags os AND CLIENT_READONLY = 0 then ds' else [])"
    "\<forall>q \<in> set qs'. packet_ok q \<and> (mtyp q = MSG_CONTENT \<or> mtyp q = MSG_RESIZE)"
    unfolding progress_def by blast
  show ?thesis
    by (rule progressI [where ps = "ps @ ps'" and qs = "qs @ qs'" and ds = "ds @ ds'"])
      (use a b in \<open>auto simp: ball_Un\<close>)
qed

lemma resize_packet_ok: "packet_ok (resize_packet ws) \<and> mtyp (resize_packet ws) = MSG_RESIZE"
  by (simp add: resize_packet_def packet_ok_def MAX_PAYLOAD_def)

lemma on_conn_ok:
  "on_conn m st = Some (r, st') \<Longrightarrow> \<exists>s. m (conn st) = Some (r, s) \<and> st' = st\<lparr>conn := s\<rparr>"
  by (auto simp: on_conn_def)

lemma progress_send_resize:
  assumes "on_conn (send_resize env ws) st = Some (Inr u, st')"
  shows "progress os st st'"
proof -
  from on_conn_ok [OF assms] obtain s where
    s: "send_packet_blocking (resize_packet (current_winsize env ws)) (conn st) = Some (Inr (), s)"
    "st' = st\<lparr>conn := s\<rparr>"
    by (auto simp: send_resize_def)
  show ?thesis
    by (rule progressI [where ps = "[]" and qs = "[resize_packet (current_winsize env ws)]" and ds = "[]"])
      (use send_packet_ok [OF s(1)] s(2) resize_packet_ok in \<open>simp_all add: pending_def\<close>)
qed

lemma stdout_write_ok:
  "stdout_write bs st = Some (Inr u, st') \<Longrightarrow>
     shown st' = shown st @ bs \<and> conn st' = conn st \<and> pending st' = pending st"
  by (auto simp: stdout_write_def pending_def dest: write_loop_prefix)

lemma stdin_read_ok:
  assumes "stdin_read n st = Some (r, st')" "0 < n"
  shows "conn st' = conn st \<and> shown st' = shown st \<and>
    (case r of
       Inr bs \<Rightarrow> bs \<noteq> [] \<longrightarrow> pending st = bs @ pending st' \<and> length bs \<le> n
     | Inl e \<Rightarrow> err_kind e = Interrupted \<longrightarrow> pending st' = pending st)"
proof (cases "stdin_buf st = []")
  case True
  with assms(1) obtain x rs where x: "sys_read 8192 (stdin_rx st) = Some (x, rs)"
    by (auto simp: stdin_read_def split: option.splits)
  show ?thesis
  proof (cases x)
    case (Inl e)
    with x True assms(1) sys_read_error [of 8192 "stdin_rx st" e rs] show ?thesis
      by (auto simp: stdin_read_def pending_def)
  next
    case (Inr bs)
    show ?thesis
    proof (cases "bs = []")
      case False
      with x Inr True assms(1) sys_read_data [of 8192 "stdin_rx st" bs rs] show ?thesis
        by (auto simp: stdin_read_def pending_def) (metis append_assoc append_take_drop_id)
    qed (use x Inr True assms(1) in \<open>auto simp: stdin_read_def\<close>)
  qed
qed (use assms(1) in \<open>auto simp: stdin_read_def pending_def\<close>)

lemma progress_received:
  assumes "recv_packet_blocking (conn st) = Some (Inr p, s)"
    and "conn st' = s" "pending st' = pending st"
    and "shown st' = shown st @ (if passthrough os \<or> mtyp p \<noteq> MSG_CONTENT then [] else payload p)"
  shows "progress os st st'"
  by (rule progressI [where ps = "[p]" and qs = "[]" and ds = "[]"])
    (use recv_packet_ok [OF assms(1)] assms(2-4) in simp_all)

lemma progress_socket_part:
  assumes "socket_part os env ws st = Some (Inr None, st')"
  shows "progress os st st'"
proof -
  from assms obtain p st1 where
    r: "on_conn recv_packet_blocking st = Some (Inr p, st1)" "handle_server_packet os env ws p st1 = Some (Inr None, st')"
    by (auto simp: socket_part_def return_ok_def split: option.splits sum.splits)
  from on_conn_ok [OF r(1)] obtain s where
    s: "recv_packet_blocking (conn st) = Some (Inr p, s)" "st1 = st\<lparr>conn := s\<rparr>" by blast
  have st1: "progress os st st1" if "mtyp p \<noteq> MSG_CONTENT \<or> passthrough os"
    by (rule progress_received [OF s(1)]) (use s(2) that in \<open>auto simp: pending_def\<close>)
  show ?thesis
  proof (cases "mtyp p = MSG_CONTENT")
    case True
    show ?thesis
    proof (cases "passthrough os")
      case False
      with True r(2) obtain u where "stdout_write (payload p) st1 = Some (Inr u, st')"
        by (auto simp: handle_server_packet_def return_ok_def elim!: and_then_okE)
      from stdout_write_ok [OF this] s(2) True False show ?thesis
        by (intro progress_received [OF s(1)]) (simp_all add: pending_def)
    qed (use True r(2) st1 in \<open>auto simp: handle_server_packet_def return_ok_def\<close>)
  next
    case nc: False
    show ?thesis
    proof (cases "mtyp p = MSG_RESIZE")
      case True
      with nc r(2) obtain u where "on_conn (send_resize env ws) st1 = Some (Inr u, st')"
        by (auto simp: handle_server_packet_def return_ok_def elim!: and_then_okE)
      with st1 nc show ?thesis by (blast intro: progress_trans progress_send_resize)
    next
      case False
      with nc r(2) st1 show ?thesis
        by (auto simp: handle_server_packet_def return_ok_def split: if_splits option.splits)
    qed
  qed
qed

lemma progress_stdin_part:
  assumes "stdin_part os st = Some (Inr None, st')"
  shows "progress os st st'"
proof -
  from assms obtain r st1 where r: "stdin_read MAX_PAYLOAD st = Some (r, st1)"
    by (auto simp: stdin_part_def split: option.splits)
  note k = stdin_read_ok [OF r MAX_PAYLOAD_pos(1)]
  show ?thesis
  proof (cases r)
    case (Inl e)
    with assms r have "err_kind e = Interrupted" "st' = st1"
      by (auto simp: stdin_part_def return_ok_def split: if_splits)
    with k Inl show ?thesis by (intro progressI [where ps = "[]" and qs = "[]" and ds = "[]"]) simp_all
  next
    case (Inr bs)
    with assms r have bs: "bs \<noteq> []" by (auto simp: stdin_part_def return_ok_def)
    with k Inr have d: "pending st = bs @ pending st1" "length bs \<le> MAX_PAYLOAD" by simp_all
    have nd: "bs ! 0 \<noteq> detach_key os"
      using assms r Inr bs by (auto simp: stdin_part_def return_ok_def elim!: and_then_okE)
    show ?thesis
    proof (cases "opt_flags os AND CLIENT_READONLY = 0")
      case True
      let ?q = "\<lparr>mtyp = MSG_CONTENT, payload = bs\<rparr>"
      from assms r Inr bs nd True obtain u where "on_conn (send_packet_blocking ?q) st1 = Some (Inr u, st')"
        by (auto simp: stdin_part_def return_ok_def elim!: and_then_okE)
      from on_conn_ok [OF this] obtain s where s: "send_packet_blocking ?q (conn st1) = Some (Inr (), s)"
        "st' = st1\<lparr>conn := s\<rparr>" by auto
      show ?thesis
        by (rule progressI [where ps = "[]" and qs = "[?q]" and ds = bs])
          (use send_packet_ok [OF s(1)] s(2) k d True in \<open>simp_all add: pending_def packet_ok_def\<close>)
    next
      case False
      with assms r Inr bs nd have "st' = st1" by (auto simp: stdin_part_def return_ok_def)
      with k d False show ?thesis by (intro progressI [where ps = "[]" and qs = "[]" and ds = bs]) simp_all
    qed
  qed
qed

lemma winch_fields [simp]:
  "conn (winch_arrives b st) = conn st" "shown (winch_arrives b st) = shown st"
  "stdin_buf (winch_arrives b st) = stdin_buf st" "stdin_rx (winch_arrives b st) = stdin_rx st"
  "tty (winch_arrives b st) = tty st" "stdout_tx (winch_arrives b st) = stdout_tx st"
  "WINCH_PENDING (signal_flags (winch_arrives b st)) \<longleftrightarrow> b \<or> WINCH_PENDING (signal_flags st)"
  "conn (clear_winch st) = conn st" "shown (clear_winch st) = shown st"
  "stdin_buf (clear_winch st) = stdin_buf st" "stdin_rx (clear_winch st) = stdin_rx st"
  "tty (clear_winch st) = tty st"
  "\<not> WINCH_PENDING (signal_flags (clear_winch st))"
  by (simp_all add: winch_arrives_def clear_winch_def handle_sigwinch_def)

lemma winch_arrives_False [simp]: "winch_arrives False st = st"
  by (simp add: winch_arrives_def)

lemma progress_same:
  "conn st' = conn st \<Longrightarrow> shown st' = shown st \<Longrightarrow> stdin_buf st' = stdin_buf st \<Longrightarrow>
     stdin_rx st' = stdin_rx st \<Longrightarrow> progress os st st'"
  by (rule progressI [where ps = "[]" and qs = "[]" and ds = "[]"]) (simp_all add: pending_def)

lemma progress_turn:
  assumes "client_turn os env r st = Some (Inr None, st')"
  shows "progress os st st'"
proof (cases "answer r")
  case (SelectErr e winch)
  let ?st = "clear_winch (winch_arrives winch (winch_arrives (signalled r) st))"
  have p: "progress os st ?st" by (rule progress_same) simp_all
  with assms SelectErr have "(\<exists>u. on_conn (send_resize env (winsize r)) ?st = Some (Inr u, st')) \<or> st' = ?st"
    by (auto simp: client_turn_def return_ok_def Let_def elim!: and_then_okE split: if_splits)
  with p show ?thesis by (blast intro: progress_trans progress_send_resize)
next
  case (Ready a b)
  let ?st = "winch_arrives (signalled r) st"
  from Ready assms obtain v st1 where
    1: "(if a then socket_part os env (winsize r) else return_ok None) ?st = Some (Inr v, st1)"
    "(case v of Some status \<Rightarrow> return_ok (Some status)
      | None \<Rightarrow> if b then stdin_part os else return_ok None) st1 = Some (Inr None, st')"
    by (auto simp: client_turn_def elim!: and_then_okE)
  then have v: "v = None" by (auto simp: return_ok_def split: option.splits)
  have "progress os st ?st" by (rule progress_same) simp_all
  moreover have "progress os ?st st1"
    using 1(1) v progress_socket_part progress_refl by (auto simp: return_ok_def split: if_splits)
  moreover have "progress os st1 st'"
    using 1(2) v progress_stdin_part progress_refl by (auto simp: return_ok_def split: if_splits)
  ultimately show ?thesis by (blast intro: progress_trans)
qed

lemma progress_loop: "client_loop os env rs st = Turning st' \<Longrightarrow> progress os st st'"
proof (induction rs arbitrary: st)
  case (Cons r rs)
  then obtain st1 where "client_turn os env r st = Some (Inr None, st1)" "client_loop os env rs st1 = Turning st'"
    by (auto split: option.splits sum.splits)
  with Cons.IH [of st1] show ?case by (blast intro: progress_turn progress_trans)
qed (simp add: progress_refl)

subsection \<open>The loop never touches the terminal's mode\<close>

lemma and_then_tty:
  assumes "\<And>st r st'. m st = Some (r, st') \<Longrightarrow> tty st' = tty st"
    and "\<And>a st r st'. f a st = Some (r, st') \<Longrightarrow> tty st' = tty st"
    and "and_then m f st = Some (r, st')"
  shows "tty st' = tty st"
  using assms(3) assms(1) [of st] assms(2) by (fastforce simp: and_then_def split: option.splits sum.splits)

lemma return_tty: "return_ok a st = Some (r, st') \<Longrightarrow> st' = st"
  by (simp add: return_ok_def)

lemma on_conn_tty: "on_conn m st = Some (r, st') \<Longrightarrow> tty st' = tty st \<and> stdin_buf st' = stdin_buf st"
  by (auto simp: on_conn_def)

lemma stdout_write_tty: "stdout_write bs st = Some (r, st') \<Longrightarrow> tty st' = tty st \<and> stdin_buf st' = stdin_buf st"
  by (auto simp: stdout_write_def)

lemma stdin_read_tty: "stdin_read n st = Some (r, st') \<Longrightarrow> tty st' = tty st"
  by (auto simp: stdin_read_def split: if_splits option.splits sum.splits)

lemmas tty_rules = on_conn_tty stdout_write_tty stdin_read_tty return_tty

lemma handle_server_packet_tty:
  "handle_server_packet os env ws p st = Some (r, st') \<Longrightarrow> tty st' = tty st \<and> stdin_buf st' = stdin_buf st"
  unfolding handle_server_packet_def
  by (auto simp: and_then_def return_ok_def split: if_splits option.splits sum.splits dest!: on_conn_tty stdout_write_tty)

lemma socket_part_tty:
  "socket_part os env ws st = Some (r, st') \<Longrightarrow> tty st' = tty st \<and> stdin_buf st' = stdin_buf st"
  by (auto simp: socket_part_def return_ok_def split: option.splits sum.splits
      dest!: on_conn_tty handle_server_packet_tty)

lemma stdin_part_tty: "stdin_part os st = Some (r, st') \<Longrightarrow> tty st' = tty st"
  unfolding stdin_part_def
  by (auto simp: and_then_def return_ok_def split: if_splits option.splits sum.splits dest!: on_conn_tty stdin_read_tty)

lemma client_turn_tty: "client_turn os env r st = Some (x, st') \<Longrightarrow> tty st' = tty st"
  unfolding client_turn_def Let_def
  by (auto simp: and_then_def return_ok_def split: select_answer.splits if_splits option.splits sum.splits
      dest!: on_conn_tty socket_part_tty stdin_part_tty)

lemma client_loop_tty:
  "(client_loop os env rs st = Left x st' \<longrightarrow> tty st' = tty st) \<and>
   (client_loop os env rs st = Turning st' \<longrightarrow> tty st' = tty st)"
proof (induction rs arbitrary: st)
  case (Cons r rs)
  show ?case
  proof (cases "client_turn os env r st")
    case (Some q)
    obtain y st1 where q: "q = (y, st1)" by (cases q)
    with Some Cons.IH [of st1] client_turn_tty [of os env r st y st1] show ?thesis
      by (auto split: sum.splits option.splits)
  qed simp
qed simp

fun without_stdin :: "round \<Rightarrow> bool" where
  "without_stdin r = (case answer r of Ready a b \<Rightarrow> \<not> b | SelectErr e w \<Rightarrow> True)"

lemma client_turn_stdin:
  "client_turn os env r st = Some (x, st') \<Longrightarrow> without_stdin r \<Longrightarrow> stdin_buf st' = stdin_buf st"
  unfolding client_turn_def Let_def
  by (auto simp: and_then_def return_ok_def split: select_answer.splits if_splits option.splits sum.splits
      dest!: on_conn_tty socket_part_tty)

lemma client_loop_stdin:
  "client_loop os env rs st = Turning st' \<Longrightarrow> list_all without_stdin rs \<Longrightarrow> stdin_buf st' = stdin_buf st"
proof (induction rs arbitrary: st)
  case (Cons r rs)
  then obtain st1 where t: "client_turn os env r st = Some (Inr None, st1)" "client_loop os env rs st1 = Turning st'"
    by (auto split: option.splits sum.splits)
  with Cons client_turn_stdin [OF t(1)] show ?case by simp
qed simp

subsection \<open>Receiving, one packet a turn\<close>

lemma stdout_write_takes:
  assumes "list_all takes (stdout_tx st)" "length bs \<le> length (stdout_tx st)"
  shows "\<exists>ws. stdout_write bs st = Some (Inr (), st\<lparr>stdout_tx := ws, shown := shown st @ bs\<rparr>) \<and>
    list_all takes ws \<and> length (stdout_tx st) \<le> length ws + length bs"
  using write_loop_takes [OF assms, of Blocking] by (fastforce simp: stdout_write_def)

definition sock_round :: "(u16 \<times> u16) option \<Rightarrow> round" where
  "sock_round ws = \<lparr>signalled = False, answer = Ready True False, winsize = ws\<rparr>"

lemma sock_turn:
  "client_turn os env (sock_round ws) st =
     (case socket_part os env ws st of
        Some (Inr None, st') \<Rightarrow> Some (Inr None, st')
      | r \<Rightarrow> r)"
  by (simp add: client_turn_def sock_round_def and_then_def return_ok_def split: option.splits sum.splits)

lemma content_turn:
  assumes "recv_packet_blocking (conn st) = Some (Inr p, s)"
    and "mtyp p \<noteq> MSG_EXIT" "mtyp p \<noteq> MSG_RESIZE" "\<not> passthrough os"
    and "list_all takes (stdout_tx st)" "length (contents [p]) \<le> length (stdout_tx st)"
  shows "\<exists>ws'. client_turn os env (sock_round ws) st =
      Some (Inr None, st\<lparr>conn := s, stdout_tx := ws', shown := shown st @ contents [p]\<rparr>) \<and>
    list_all takes ws' \<and> length (stdout_tx st) \<le> length ws' + length (contents [p])"
proof (cases "mtyp p = MSG_CONTENT")
  case True
  with assms(6) obtain ws' where
    "stdout_write (payload p) (st\<lparr>conn := s\<rparr>) =
       Some (Inr (), st\<lparr>conn := s, stdout_tx := ws', shown := shown st @ payload p\<rparr>)"
    "list_all takes ws'" "length (stdout_tx st) \<le> length ws' + length (payload p)"
    using stdout_write_takes [of "st\<lparr>conn := s\<rparr>" "payload p"] assms(5) by auto
  with True assms show ?thesis
    by (intro exI [of _ ws'])
      (simp add: sock_turn socket_part_def on_conn_def handle_server_packet_def return_ok_def)
next
  case False
  with assms show ?thesis
    by (intro exI [of _ "stdout_tx st"])
      (simp add: sock_turn socket_part_def on_conn_def handle_server_packet_def return_ok_def)
qed

lemma exit_turn:
  assumes "recv_packet_blocking (conn st) = Some (Inr p, s)" "mtyp p = MSG_EXIT"
    and "read_u32 (payload p) = Some code" "send_packet_blocking p s \<noteq> None"
  shows "\<exists>s'. client_turn os env (sock_round ws) st = Some (Inr (Some (Exited code)), st\<lparr>conn := s'\<rparr>)"
  using assms
  by (auto simp: sock_turn socket_part_def on_conn_def handle_server_packet_def return_ok_def split: option.splits)

text \<open>The greeting of an attach, with a server that greets and a connection that takes it.\<close>

lemma greet_takes:
  assumes "packet_ok p" "readable (rx s) = packet_bytes p @ rest" "list_all takes (tx s)" "24 \<le> length (tx s)"
  shows "\<exists>s'. attach_greet os env ws s = Some (Inr (), s') \<and> readable (rx s') = rest \<and>
    list_all takes (tx s') \<and> length (tx s) \<le> length (tx s') + 24"
proof -
  from recv_packet_next [OF assms(1,2)] obtain s1 where
    r: "recv_packet_blocking s = Some (Inr p, s1)" "readable (rx s1) = rest" by blast
  have t1: "tx s1 = tx s" using recv_packet_wire [OF r(1)] by simp
  let ?a = "\<lparr>mtyp = MSG_ATTACH, payload = u32_to_ne_bytes (opt_flags os)\<rparr>"
  obtain s2 where a: "send_packet_blocking ?a s1 = Some (Inr (), s2)"
    and t2: "list_all takes (tx s2)" "length (tx s) \<le> length (tx s2) + 12"
    using write_all_takes [of s1 "packet_bytes ?a"] t1 assms(3,4) by (auto simp: send_packet_blocking_def)
  let ?w = "resize_packet (current_winsize env ws)"
  have "length (packet_bytes ?w) = 12" by (simp add: resize_packet_def)
  then obtain s3 where w: "send_packet_blocking ?w s2 = Some (Inr (), s3)"
    and t3: "list_all takes (tx s3)" "length (tx s2) \<le> length (tx s3) + 12"
    using write_all_takes [of s2 "packet_bytes ?w"] t2 assms(4) by (auto simp: send_packet_blocking_def)
  have "rx s3 = rx s1" using send_packet_ok [OF a] send_packet_ok [OF w] by simp
  with r a w t2 t3 show ?thesis
    by (intro exI [of _ s3]) (simp add: attach_greet_def send_resize_def)
qed

lemma exit_rounds:
  "list_all packet_ok ps \<Longrightarrow> \<forall>p \<in> set ps. mtyp p \<noteq> MSG_EXIT \<and> mtyp p \<noteq> MSG_RESIZE \<Longrightarrow> \<not> passthrough os \<Longrightarrow>
   packet_ok ep \<Longrightarrow> mtyp ep = MSG_EXIT \<Longrightarrow> read_u32 (payload ep) = Some code \<Longrightarrow>
   readable (rx (conn st)) = encode (ps @ [ep]) @ rest \<Longrightarrow>
   list_all takes (stdout_tx st) \<Longrightarrow> length (contents ps) \<le> length (stdout_tx st) \<Longrightarrow>
   list_all takes (tx (conn st)) \<Longrightarrow> length (packet_bytes ep) \<le> length (tx (conn st)) \<Longrightarrow>
     \<exists>st'. client_loop os env (replicate (length ps + 1) (sock_round ws)) st = Left (Inr (Exited code)) st' \<and>
       shown st' = shown st @ contents ps"
proof (induction ps arbitrary: st)
  case Nil
  then have "readable (rx (conn st)) = packet_bytes ep @ rest" by simp
  from recv_packet_next [OF Nil(4) this] obtain s where
    r: "recv_packet_blocking (conn st) = Some (Inr ep, s)" by blast
  have "tx s = tx (conn st)" using recv_packet_wire [OF r] by simp
  then have "send_packet_blocking ep s \<noteq> None"
    using write_all_takes [of s "packet_bytes ep"] Nil by (auto simp: send_packet_blocking_def)
  from exit_turn [OF r Nil(5,6) this, of os env ws] show ?case by auto
next
  case (Cons p ps)
  then have "readable (rx (conn st)) = packet_bytes p @ encode (ps @ [ep]) @ rest" "packet_ok p" by simp_all
  from recv_packet_next [OF this(2,1)] obtain s where
    r: "recv_packet_blocking (conn st) = Some (Inr p, s)" "readable (rx s) = encode (ps @ [ep]) @ rest" by blast
  have tx: "tx s = tx (conn st)" using recv_packet_wire [OF r(1)] by simp
  obtain ws' where t: "client_turn os env (sock_round ws) st =
      Some (Inr None, st\<lparr>conn := s, stdout_tx := ws', shown := shown st @ contents [p]\<rparr>)"
    "list_all takes ws'" "length (stdout_tx st) \<le> length ws' + length (contents [p])"
    using content_turn [OF r(1), of os env ws] Cons.prems by auto
  let ?st = "st\<lparr>conn := s, stdout_tx := ws', shown := shown st @ contents [p]\<rparr>"
  have "length (contents ps) \<le> length ws'" using t(3) Cons.prems(9) by auto
  then obtain st' where "client_loop os env (replicate (length ps + 1) (sock_round ws)) ?st =
      Left (Inr (Exited code)) st'" "shown st' = shown ?st @ contents ps"
    using Cons.IH [of ?st] Cons.prems t(2) r(2) tx by auto
  with t(1) show ?case by auto
qed

subsection \<open>Properties\<close>

text \<open>C17: While it runs, an attached client is a faithful relay, over every run of the loop: there are the
  packets \<open>ps\<close> it received, the packets \<open>qs\<close> it sent and the keystrokes \<open>ds\<close> it consumed, such that
  the screen shows exactly the content of \<open>ps\<close> in order (nothing with \<open>-p\<close>), what it wrote is exactly
  the encoding of \<open>qs\<close>, which are content and resizes only, and the content of \<open>qs\<close> is exactly what
  was typed, or nothing for a read-only client.\<close>

theorem attached_client_relays:
  assumes "client_loop os env rs st = Turning st'"
  shows "\<exists>ps qs ds. list_all packet_ok ps \<and>
    readable (rx (conn st)) = encode ps @ readable (rx (conn st')) \<and>
    shown st' = shown st @ (if passthrough os then [] else contents ps) \<and>
    wire (conn st') = wire (conn st) @ encode qs \<and>
    pending st = ds @ pending st' \<and>
    contents qs = (if opt_flags os AND CLIENT_READONLY = 0 then ds else []) \<and>
    (\<forall>q \<in> set qs. packet_ok q \<and> (mtyp q = MSG_CONTENT \<or> mtyp q = MSG_RESIZE))"
  using progress_loop [OF assms] unfolding progress_def .

definition demo_io :: attach_io where
  "demo_io = \<lparr>conn = \<lparr>rx = [], tx = [Count 99], wire = []\<rparr>, stdin_buf = [], stdin_rx = [Bytes [120]],
     stdout_tx = [], shown = [], tty = [],
     signal_flags = \<lparr>WINCH_PENDING = False, SHUTDOWN_REQUESTED = False\<rparr>\<rparr>"

lemma demo_keystroke:
  "client_loop initial_opts (\<lambda>v. None) [\<lparr>signalled = False, answer = Ready False True, winsize = None\<rparr>] demo_io =
     Turning (demo_io\<lparr>conn := \<lparr>rx = [], tx = [], wire = packet_bytes \<lparr>mtyp = MSG_CONTENT, payload = [120]\<rparr>\<rparr>,
       stdin_rx := []\<rparr>)"
  by (simp add: client_turn_def stdin_part_def stdin_read_def sys_read_def demo_io_def MAX_PAYLOAD_def
      initial_opts_def and_then_def return_ok_def on_conn_def send_packet_blocking_def write_all_def
      packet_bytes_def u32_to_ne_bytes_def le_bytes_numeral MSG_CONTENT_def)

theorem attached_client_relays_witness:
  "\<exists>qs. packet_bytes \<lparr>mtyp = MSG_CONTENT, payload = [120]\<rparr> = encode qs \<and> contents qs = [120]"
  using attached_client_relays [OF demo_keystroke]
  by (auto simp: demo_io_def pending_def initial_opts_def)

text \<open>The session's exit status reaches the user's shell: when the connection holds any packets but
  exit and resize, then \<open>MSG_EXIT\<close> with a status, \<open>client_loop\<close> shows the content of all of them, leaves
  with that status, and \<open>lich -a\<close>, \<open>-A\<close> or \<open>-c\<close> exits with it; a peer that stops in mid-packet or
  breaks the protocol is reported as lost, not as an exit.\<close>

lemma exit_status_reaches_shell:
  assumes "readable (rx (conn st)) = encode (ps @ [\<lparr>mtyp = MSG_EXIT, payload = u32_to_ne_bytes code\<rparr>]) @ rest"
    and "list_all packet_ok ps" and "\<forall>p \<in> set ps. mtyp p \<noteq> MSG_EXIT \<and> mtyp p \<noteq> MSG_RESIZE"
    and "\<not> passthrough os"
    and "list_all takes (stdout_tx st)" and "length (contents ps) \<le> length (stdout_tx st)"
    and "list_all takes (tx (conn st))" and "12 \<le> length (tx (conn st))"
  shows "\<exists>st'. client_loop os env (replicate (length ps + 1) (sock_round ws)) st = Left (Inr (Exited code)) st' \<and>
    shown st' = shown st @ contents ps \<and>
    (\<exists>st''. attach_end name True os (Exited code) st' = ExitProcess code st'') \<and>
    (\<forall>e s io. recv_packet_blocking (conn io) = Some (Inl e, s) \<longrightarrow>
       client_turn os env (sock_round ws) io = Some (Inr (Some LostIo), io\<lparr>conn := s\<rparr>))"
proof -
  let ?p = "\<lparr>mtyp = MSG_EXIT, payload = u32_to_ne_bytes code\<rparr>"
  have p: "packet_ok ?p" "mtyp ?p = MSG_EXIT" "read_u32 (payload ?p) = Some code"
    "length (packet_bytes ?p) \<le> length (tx (conn st))"
    using read_u32_bytes [of code "[]"] assms(8) by (simp_all add: packet_ok_def MAX_PAYLOAD_def)
  obtain st' where "client_loop os env (replicate (length ps + 1) (sock_round ws)) st = Left (Inr (Exited code)) st'"
    "shown st' = shown st @ contents ps"
    using exit_rounds [OF assms(2-4) p(1-3) assms(1,5-7) p(4)] by blast
  then show ?thesis
    by (intro exI [of _ st'])
      (simp add: attach_end_def Let_def sock_turn socket_part_def on_conn_def return_ok_def)
qed

lemma info_line_tty:
  "\<exists>msgs. tty (info_line os name m s) = tty s @ map Info msgs \<and> (quiet os \<longrightarrow> msgs = [])"
  by (cases "quiet os") (auto simp: info_line_def intro: exI [of _ "[x]" for x])

lemma attach_end_tty:
  assumes "attach_end name terminate os status s = Finished st' \<or> attach_end name terminate os status s = ExitProcess code st'"
  shows "\<exists>msgs. tty st' = tty s @ map Info msgs \<and> (quiet os \<longrightarrow> msgs = [])"
  using assms info_line_tty by (cases status) (auto simp: attach_end_def Let_def split: if_splits)

lemma raw_mode_paired:
  assumes "raw_enter os k isatty attr st1 = (saved, st2)" "tty st3 = tty st2"
  obtains raw where "tty (raw_drop saved st3) = tty st1 @ raw"
    "raw = [] \<or> (\<exists>t. raw = [SetNow (make_raw k t), ClearScreen, SetFlush t, ShowCursor] \<and>
       attr = Some t \<and> isatty \<and> \<not> passthrough os)"
  using assms by (auto simp: raw_enter_def raw_drop_def split: if_splits option.splits)

text \<open>C26: The terminal is always given back: whatever happens in the loop, when \<open>attach_session\<close> ends (with
  a message, with the session's exit status, or with an error from the loop) the terminal's mode
  was changed and cleared at most once, exactly then it was set back to the mode read before, and
  the cursor shown, before any message was printed; it was never touched with \<open>-p\<close> or off a terminal.\<close>

theorem terminal_is_restored:
  assumes "attach_session name terminate os env ws k isatty attr rounds st = r"
    and "r = Finished st' \<or> r = ExitProcess code st' \<or> r = AttachFailed e st'"
  shows "\<exists>msgs raw. tty st' = tty st @ raw @ map Info msgs \<and>
    (raw = [] \<or> (\<exists>t. raw = [SetNow (make_raw k t), ClearScreen, SetFlush t, ShowCursor] \<and>
       attr = Some t \<and> isatty \<and> \<not> passthrough os)) \<and>
    (quiet os \<longrightarrow> msgs = [])"
proof -
  obtain q st1 where g: "on_conn (attach_greet os env ws) st = Some (q, st1)"
    using assms by (auto simp: attach_session_def split: option.splits)
  have t1: "tty st1 = tty st" using on_conn_tty [OF g] by simp
  show ?thesis
  proof (cases q)
    case (Inl x)
    with g assms t1 show ?thesis by (intro exI [of _ "[]"]) (auto simp: attach_session_def)
  next
    case (Inr u)
    obtain saved st2 where e: "raw_enter os k isatty attr st1 = (saved, st2)"
      by (cases "raw_enter os k isatty attr st1")
    from assms g Inr e obtain x st3 where l: "client_loop os env rounds st2 = Left x st3"
      by (auto simp: attach_session_def split: client_result.splits sum.splits)
    have "tty st3 = tty st2" using client_loop_tty [of os env rounds st2 x st3] l by simp
    with e obtain raw where raw: "tty (raw_drop saved st3) = tty st1 @ raw"
      "raw = [] \<or> (\<exists>t. raw = [SetNow (make_raw k t), ClearScreen, SetFlush t, ShowCursor] \<and>
         attr = Some t \<and> isatty \<and> \<not> passthrough os)"
      by (rule raw_mode_paired)
    have "\<exists>msgs. tty st' = tty (raw_drop saved st3) @ map Info msgs \<and> (quiet os \<longrightarrow> msgs = [])"
    proof (cases x)
      case (Inl y)
      with assms g Inr e l show ?thesis by (intro exI [of _ "[]"]) (auto simp: attach_session_def)
    next
      case (Inr status)
      with assms g \<open>q = Inr u\<close> e l have "attach_end name terminate os status (raw_drop saved st3) = r"
        by (simp add: attach_session_def)
      with assms(2) show ?thesis
        by (intro attach_end_tty [of name terminate os status _ st' code])
          (auto simp: attach_end_def Let_def split: client_status.splits if_splits)
    qed
    with raw t1 show ?thesis by auto
  qed
qed

text \<open>What the raw mode changes: no echo, no line editing, no signals from keys, eight-bit input, one byte
  at a time; every other flag stays as it was.\<close>

lemma mask_off: "(x AND NOT m) AND m = (0 :: 'a :: len word)"
  by (simp add: and.assoc)

lemma make_raw_flags:
  "c_lflag (make_raw k t) AND (ECHO k OR ECHONL k OR ICANON k OR ISIG k OR IEXTEN k) = 0"
  "c_oflag (make_raw k t) AND OPOST k = 0"
  "c_cflag (make_raw k t) AND CS8 k = CS8 k"
  "VMIN k \<noteq> VTIME k \<Longrightarrow> c_cc (make_raw k t) (VMIN k) = 1 \<and> c_cc (make_raw k t) (VTIME k) = 0"
proof -
  have "c_lflag (make_raw k t) = c_lflag t AND NOT (ECHO k OR ECHONL k OR ICANON k OR ISIG k OR IEXTEN k)"
    by (simp add: make_raw_def)
  then show "c_lflag (make_raw k t) AND (ECHO k OR ECHONL k OR ICANON k OR ISIG k OR IEXTEN k) = 0"
    by (simp only: mask_off)
  show "c_oflag (make_raw k t) AND OPOST k = 0"
    by (simp add: make_raw_def mask_off)
  show "c_cflag (make_raw k t) AND CS8 k = CS8 k"
    by (simp add: make_raw_def word_ao_absorbs)
  show "VMIN k \<noteq> VTIME k \<Longrightarrow> c_cc (make_raw k t) (VMIN k) = 1 \<and> c_cc (make_raw k t) (VTIME k) = 0"
    by (simp add: make_raw_def)
qed

definition demo_attach :: attach_io where
  "demo_attach = demo_io\<lparr>conn := \<lparr>rx = [Bytes (packet_bytes \<lparr>mtyp = MSG_PID, payload = []\<rparr>)],
     tx = replicate 99 (Count 99), wire = []\<rparr>, stdin_rx := [Bytes []]\<rparr>"

lemma demo_greet: "\<exists>s. attach_greet os env ws (conn demo_attach) = Some (Inr (), s)"
  using greet_takes [of "\<lparr>mtyp = MSG_PID, payload = []\<rparr>" "conn demo_attach" "[]" os env ws]
  by (auto simp: demo_attach_def packet_ok_def takes_def list_all_iff)

lemma demo_detach:
  "\<exists>st'. attach_session ''s'' True initial_opts (\<lambda>v. None) None k True (Some t) [\<lparr>signalled = False, answer = Ready False True, winsize = None\<rparr>]
      demo_attach = Finished st'"
proof -
  obtain s3 where "attach_greet initial_opts (\<lambda>v. None) None (conn demo_attach) = Some (Inr (), s3)"
    using demo_greet by blast
  then show ?thesis
    by (simp add: attach_session_def on_conn_def raw_enter_def client_turn_def stdin_part_def
        stdin_read_def sys_read_def and_then_def return_ok_def attach_end_def demo_attach_def demo_io_def
        split: prod.split)
qed

theorem terminal_is_restored_witness:
  "\<forall>k t. \<exists>st' msgs raw. attach_session ''s'' True initial_opts (\<lambda>v. None) None k True (Some t)
      [\<lparr>signalled = False, answer = Ready False True, winsize = None\<rparr>] demo_attach = Finished st' \<and>
    tty st' = raw @ map Info msgs \<and>
    (raw = [] \<or> raw = [SetNow (make_raw k t), ClearScreen, SetFlush t, ShowCursor])"
proof (intro allI)
  fix k t
  obtain st' where st': "attach_session ''s'' True initial_opts (\<lambda>v. None) None k True (Some t)
      [\<lparr>signalled = False, answer = Ready False True, winsize = None\<rparr>] demo_attach = Finished st'"
    using demo_detach by blast
  obtain msgs raw where "tty st' = [] @ raw @ map Info msgs"
    "raw = [] \<or> raw = [SetNow (make_raw k t), ClearScreen, SetFlush t, ShowCursor]"
    using terminal_is_restored [OF st' disjI1 [OF refl]] by (auto simp: demo_attach_def demo_io_def)
  with st' show "\<exists>st' msgs raw. attach_session ''s'' True initial_opts (\<lambda>v. None) None k True (Some t)
      [\<lparr>signalled = False, answer = Ready False True, winsize = None\<rparr>] demo_attach = Finished st' \<and>
    tty st' = raw @ map Info msgs \<and>
    (raw = [] \<or> raw = [SetNow (make_raw k t), ClearScreen, SetFlush t, ShowCursor])"
    by (intro exI [of _ st'] exI [of _ msgs] exI [of _ raw]) simp
qed

text \<open>The detach key leaves the session running: when a read of the keyboard starts with it, the client
  sends one \<open>MSG_DETACH\<close>, forwards none of the bytes of that read, and leaves as detached (so the
  user's shell is not given an exit status).\<close>

lemma detach_key_detaches:
  assumes "stdin_buf st = []" and "stdin_rx st = Bytes (detach_key os # bs) # rs" and "length bs < 8192"
    and "list_all takes (tx (conn st))" and "8 \<le> length (tx (conn st))"
  shows "\<exists>st'. client_turn os env \<lparr>signalled = False, answer = Ready False True, winsize = ws\<rparr> st = Some (Inr (Some Detached), st') \<and>
    wire (conn st') = wire (conn st) @ packet_bytes \<lparr>mtyp = MSG_DETACH, payload = []\<rparr> \<and>
    attach_end name terminate os Detached st' = Finished (info_line os name ''detached'' st')"
proof -
  let ?p = "\<lparr>mtyp = MSG_DETACH, payload = []\<rparr>"
  obtain s where s: "send_packet_blocking ?p (conn st) = Some (Inr (), s)"
    using write_all_takes [of "conn st" "packet_bytes ?p"] assms(4,5) by (auto simp: send_packet_blocking_def)
  have "take MAX_PAYLOAD (detach_key os # bs) = detach_key os # take 4087 bs"
    by (simp add: MAX_PAYLOAD_def)
  with assms s send_packet_ok [OF s] show ?thesis
    by (simp add: client_turn_def stdin_part_def stdin_read_def sys_read_def and_then_def return_ok_def
        on_conn_def attach_end_def)
qed

text \<open>C38: Typed or pasted input can get stuck: the library's reader takes up to 8 KiB off the terminal, the
  loop forwards the first \<open>MAX_PAYLOAD\<close> bytes of it, and since \<open>select\<close> watches the descriptor, which
  is now empty, the rest stays in the reader, unsent, for every run of turns in which nothing
  more is typed.\<close>

theorem buffered_input_is_stuck:
  assumes "stdin_buf st = []" and "stdin_rx st = [Bytes bs]"
    and "MAX_PAYLOAD < length bs" and "length bs \<le> 8192"
    and "bs ! 0 \<noteq> detach_key os" and "opt_flags os AND CLIENT_READONLY = 0"
    and "list_all takes (tx (conn st))" and "4096 \<le> length (tx (conn st))"
  shows "\<exists>st'. client_turn os env \<lparr>signalled = False, answer = Ready False True, winsize = ws\<rparr> st = Some (Inr None, st') \<and>
    wire (conn st') = wire (conn st) @ packet_bytes \<lparr>mtyp = MSG_CONTENT, payload = take MAX_PAYLOAD bs\<rparr> \<and>
    stdin_rx st' = [] \<and> stdin_buf st' = drop MAX_PAYLOAD bs \<and>
    (list_all without_stdin rs \<longrightarrow> client_loop os env rs st' = Turning st'' \<longrightarrow>
       stdin_buf st'' = drop MAX_PAYLOAD bs)"
proof -
  let ?p = "\<lparr>mtyp = MSG_CONTENT, payload = take MAX_PAYLOAD bs\<rparr>"
  have len: "length (packet_bytes ?p) = 4096" using assms(3) by (simp add: MAX_PAYLOAD_def)
  obtain s where s: "send_packet_blocking ?p (conn st) = Some (Inr (), s)"
    using write_all_takes [of "conn st" "packet_bytes ?p"] assms(7,8) len by (auto simp: send_packet_blocking_def)
  have b: "take MAX_PAYLOAD bs \<noteq> []" "take MAX_PAYLOAD bs ! 0 = bs ! 0" "take 8192 bs = bs"
    using assms(3,4) by (auto simp: MAX_PAYLOAD_def)
  let ?st = "st\<lparr>stdin_rx := [], stdin_buf := drop MAX_PAYLOAD bs, conn := s\<rparr>"
  have "client_turn os env \<lparr>signalled = False, answer = Ready False True, winsize = ws\<rparr> st = Some (Inr None, ?st)"
    using assms(1,2,4-6) b s
    by (simp add: client_turn_def stdin_part_def stdin_read_def sys_read_def and_then_def return_ok_def on_conn_def)
  then show ?thesis
    using send_packet_ok [OF s] client_loop_stdin [of os env rs ?st st'']
    by (intro exI [of _ ?st]) simp
qed

theorem buffered_input_is_stuck_witness:
  "\<exists>st'. client_turn initial_opts (\<lambda>v. None) \<lparr>signalled = False, answer = Ready False True, winsize = None\<rparr>
      (demo_io\<lparr>stdin_rx := [Bytes (replicate 5000 120)], conn := \<lparr>rx = [], tx = replicate 4096 (Count 1), wire = []\<rparr>\<rparr>) =
      Some (Inr None, st') \<and> stdin_buf st' = drop MAX_PAYLOAD (replicate 5000 120)"
  using buffered_input_is_stuck [of "demo_io\<lparr>stdin_rx := [Bytes (replicate 5000 120)],
      conn := \<lparr>rx = [], tx = replicate 4096 (Count 1), wire = []\<rparr>\<rparr>" "replicate 5000 120" initial_opts
      "\<lambda>v. None" None "[]"]
  by (auto simp: demo_io_def initial_opts_def takes_def list_all_iff MAX_PAYLOAD_def)

subsection \<open>Window size changes\<close>

lemma stdin_part_sends:
  assumes "stdin_part os st = Some (Inr None, st')"
  shows "signal_flags st' = signal_flags st \<and>
    (\<exists>qs. wire (conn st') = wire (conn st) @ encode qs \<and> (\<forall>q \<in> set qs. mtyp q = MSG_CONTENT))"
proof -
  from assms obtain x st1 where x: "stdin_read MAX_PAYLOAD st = Some (x, st1)"
    by (auto simp: stdin_part_def split: option.splits)
  then have k: "conn st1 = conn st" "signal_flags st1 = signal_flags st"
    by (auto simp: stdin_read_def split: if_splits option.splits sum.splits)
  have "st' = st1 \<or> (\<exists>bs s. send_packet_blocking \<lparr>mtyp = MSG_CONTENT, payload = bs\<rparr> (conn st1) = Some (Inr (), s) \<and>
      st' = st1\<lparr>conn := s\<rparr>)"
    using assms x
    by (auto simp: stdin_part_def return_ok_def split: sum.splits if_splits elim!: and_then_okE dest!: on_conn_ok)
      blast
  then show ?thesis
  proof
    assume "st' = st1"
    with k show ?thesis by (intro conjI exI [of _ "[]"]) simp_all
  next
    assume "\<exists>bs s. send_packet_blocking \<lparr>mtyp = MSG_CONTENT, payload = bs\<rparr> (conn st1) = Some (Inr (), s) \<and>
      st' = st1\<lparr>conn := s\<rparr>"
    then obtain bs s where "send_packet_blocking \<lparr>mtyp = MSG_CONTENT, payload = bs\<rparr> (conn st1) = Some (Inr (), s)"
      "st' = st1\<lparr>conn := s\<rparr>" by blast
    with k send_packet_ok show ?thesis
      by (intro conjI exI [of _ "[\<lparr>mtyp = MSG_CONTENT, payload = bs\<rparr>]"]) auto
  qed
qed

definition keyboard_round :: "round \<Rightarrow> bool" where
  "keyboard_round r \<longleftrightarrow> (case answer r of Ready a b \<Rightarrow> \<not> a | SelectErr e w \<Rightarrow> False)"

lemma keyboard_turn:
  assumes "client_turn os env r st = Some (Inr None, st')" "keyboard_round r"
  shows "(WINCH_PENDING (signal_flags st') \<longleftrightarrow> signalled r \<or> WINCH_PENDING (signal_flags st)) \<and>
    (\<exists>qs. wire (conn st') = wire (conn st) @ encode qs \<and> (\<forall>q \<in> set qs. mtyp q = MSG_CONTENT))"
proof -
  let ?st = "winch_arrives (signalled r) st"
  obtain b where b: "answer r = Ready False b"
    using assms(2) by (auto simp: keyboard_round_def split: select_answer.splits)
  show ?thesis
  proof (cases b)
    case True
    with b assms(1) have "stdin_part os ?st = Some (Inr None, st')"
      by (simp add: client_turn_def and_then_def return_ok_def)
    from stdin_part_sends [OF this] show ?thesis by simp
  next
    case False
    with b assms(1) have "st' = ?st" by (simp add: client_turn_def and_then_def return_ok_def)
    then show ?thesis by (intro conjI exI [of _ "[]"]) simp_all
  qed
qed

lemma keyboard_loop:
  "client_loop os env rs st = Turning st' \<Longrightarrow> list_all keyboard_round rs \<Longrightarrow>
     (WINCH_PENDING (signal_flags st') \<longleftrightarrow> list_ex signalled rs \<or> WINCH_PENDING (signal_flags st)) \<and>
     (\<exists>qs. wire (conn st') = wire (conn st) @ encode qs \<and> (\<forall>q \<in> set qs. mtyp q = MSG_CONTENT))"
proof (induction rs arbitrary: st)
  case Nil
  then show ?case by (intro conjI exI [of _ "[]"]) simp_all
next
  case (Cons r rs)
  then obtain st1 where t: "client_turn os env r st = Some (Inr None, st1)" "client_loop os env rs st1 = Turning st'"
    by (auto split: option.splits sum.splits)
  have k: "keyboard_round r" "list_all keyboard_round rs" using Cons.prems(2) by simp_all
  note one = keyboard_turn [OF t(1) k(1)] and rest = Cons.IH [OF t(2) k(2)]
  from one rest obtain qs qs' where
    "wire (conn st1) = wire (conn st) @ encode qs" "\<forall>q \<in> set qs. mtyp q = MSG_CONTENT"
    "wire (conn st') = wire (conn st1) @ encode qs'" "\<forall>q \<in> set qs'. mtyp q = MSG_CONTENT"
    by blast
  then have "\<exists>qs. wire (conn st') = wire (conn st) @ encode qs \<and> (\<forall>q \<in> set qs. mtyp q = MSG_CONTENT)"
    by (intro exI [of _ "qs @ qs'"]) auto
  moreover have "WINCH_PENDING (signal_flags st') \<longleftrightarrow> list_ex signalled (r # rs) \<or> WINCH_PENDING (signal_flags st)"
    using conjunct1 [OF one] conjunct1 [OF rest] by auto
  ultimately show ?case by blast
qed

lemma interrupted_turn:
  assumes "WINCH_PENDING (signal_flags st) \<or> s \<or> w" "err_kind e = Interrupted"
    "list_all takes (tx (conn st))" "12 \<le> length (tx (conn st))"
  shows "\<exists>st'. client_turn os env \<lparr>signalled = s, answer = SelectErr e w, winsize = ws\<rparr> st = Some (Inr None, st') \<and>
    wire (conn st') = wire (conn st) @ packet_bytes (resize_packet (current_winsize env ws)) \<and>
    \<not> WINCH_PENDING (signal_flags st')"
proof -
  let ?p = "resize_packet (current_winsize env ws)"
  let ?st = "clear_winch (winch_arrives w (winch_arrives s st))"
  have "length (packet_bytes ?p) = 12" by (simp add: resize_packet_def)
  then obtain c where c: "send_packet_blocking ?p (conn st) = Some (Inr (), c)"
    using write_all_takes [of "conn st" "packet_bytes ?p"] assms(3,4) by (auto simp: send_packet_blocking_def)
  have "WINCH_PENDING (signal_flags (winch_arrives w (winch_arrives s st)))" using assms(1) by auto
  with c assms(2) have "client_turn os env \<lparr>signalled = s, answer = SelectErr e w, winsize = ws\<rparr> st =
      Some (Inr None, ?st\<lparr>conn := c\<rparr>)"
    by (simp add: client_turn_def Let_def and_then_def return_ok_def on_conn_def send_resize_def)
  with send_packet_ok [OF c] show ?thesis by (intro exI [of _ "?st\<lparr>conn := c\<rparr>"]) simp
qed

text \<open>C39: A window change can be overlooked for as long as the user types: the handler only sets a flag, and the
  loop looks at it only when \<open>select\<close> itself is interrupted. If \<open>SIGWINCH\<close> comes outside \<open>select\<close>, then for
  every run of turns in which \<open>select\<close> finds input and nothing comes from the server, no size is
  sent and the flag stays set; the next signal that interrupts \<open>select\<close>, whatever it is, sends
  the size and clears the flag.\<close>

theorem window_change_waits:
  assumes "client_loop os env rs st = Turning st'" and "list_all keyboard_round rs"
    and "WINCH_PENDING (signal_flags st) \<or> list_ex signalled rs"
    and "err_kind e = Interrupted" and "list_all takes (tx (conn st'))" and "12 \<le> length (tx (conn st'))"
  shows "WINCH_PENDING (signal_flags st') \<and>
    (\<exists>qs. wire (conn st') = wire (conn st) @ encode qs \<and> (\<forall>q \<in> set qs. mtyp q = MSG_CONTENT)) \<and>
    (\<exists>st''. client_turn os env \<lparr>signalled = False, answer = SelectErr e False, winsize = ws\<rparr> st' = Some (Inr None, st'') \<and>
       wire (conn st'') = wire (conn st') @ packet_bytes (resize_packet (current_winsize env ws)) \<and>
       \<not> WINCH_PENDING (signal_flags st''))"
  using keyboard_loop [OF assms(1,2)] assms(3) interrupted_turn [OF _ assms(4-6)] by blast

definition resized_io :: attach_io where
  "resized_io = demo_io\<lparr>conn := \<lparr>rx = [], tx = Count 9 # replicate 12 (Count 1), wire = []\<rparr>\<rparr>"

lemma resized_keystroke:
  "client_loop initial_opts (\<lambda>v. None) [\<lparr>signalled = True, answer = Ready False True, winsize = None\<rparr>] resized_io =
     Turning ((winch_arrives True resized_io)\<lparr>stdin_rx := [],
       conn := \<lparr>rx = [], tx = replicate 12 (Count 1), wire = packet_bytes \<lparr>mtyp = MSG_CONTENT, payload = [120]\<rparr>\<rparr>\<rparr>)"
  by (simp add: client_turn_def stdin_part_def stdin_read_def sys_read_def resized_io_def demo_io_def MAX_PAYLOAD_def
      initial_opts_def and_then_def return_ok_def on_conn_def send_packet_blocking_def write_all_def
      packet_bytes_def u32_to_ne_bytes_def le_bytes_numeral MSG_CONTENT_def winch_arrives_def)

theorem window_change_waits_witness:
  "\<exists>st' st''. client_loop initial_opts (\<lambda>v. None) [\<lparr>signalled = True, answer = Ready False True, winsize = None\<rparr>]
      resized_io = Turning st' \<and>
    WINCH_PENDING (signal_flags st') \<and>
    client_turn initial_opts (\<lambda>v. None) \<lparr>signalled = False, answer = SelectErr (IoError Interrupted []) False, winsize = None\<rparr>
      st' = Some (Inr None, st'') \<and>
    wire (conn st'') = wire (conn st') @ packet_bytes (resize_packet (current_winsize (\<lambda>v. None) None))"
  using window_change_waits [OF resized_keystroke, of "IoError Interrupted []" None] resized_keystroke
  by (simp add: keyboard_round_def takes_def list_all_iff del: client_loop.simps) blast

end
