(* ===== verification/Dump.thy ===== *)
theory Dump
  imports ClientCalls
begin

text \<open>
  \<open>lich -d\<close>: \<open>dump_session\<close> and \<open>tail_line_start\<close> of \<open>main.rs\<close>. The specification of the
  trimming is on lists of lines: \<open>lines_of\<close> cuts a byte string behind every newline.
\<close>

subsection \<open>The code\<close>

text \<open>The receive loop; each round takes a packet's bytes off the connection, so it ends.\<close>

function dump_loop :: "bytes \<Rightarrow> (sock, bytes) call" where
  "dump_loop out s =
     (case recv_packet_blocking s of
        None \<Rightarrow> None
      | Some (Inl e, s') \<Rightarrow> Some (Inl e, s')
      | Some (Inr pkt, s') \<Rightarrow>
          (if mtyp pkt = MSG_CONTENT then dump_loop (out @ payload pkt) s'
           else if mtyp pkt = MSG_DUMP_END then Some (Inr out, s')
           else dump_loop out s'))"
  by pat_completeness auto
termination
  by (relation "measure (\<lambda>(out, s). length (readable (rx s)))") (auto dest: recv_packet_shrinks)

declare dump_loop.simps [simp del]

text \<open>The scan of \<open>tail_line_start\<close> from the end: \<open>pos\<close> counts down, \<open>found\<close> up.\<close>

fun tail_scan :: "bytes \<Rightarrow> nat \<Rightarrow> nat \<Rightarrow> nat \<Rightarrow> nat" where
  "tail_scan data lines found 0 = 0"
| "tail_scan data lines found (Suc pos) =
     (if data ! pos = 10
      then if found + 1 = lines then pos + 1 else tail_scan data lines (found + 1) pos
      else tail_scan data lines found pos)"

definition tail_line_start :: "bytes \<Rightarrow> nat \<Rightarrow> nat" where
  "tail_line_start data lines =
     (if lines = 0 \<or> data = [] then 0
      else let pos = length data
           in tail_scan data lines 0 (if pos > 0 \<and> data ! (pos - 1) = 10 then pos - 1 else pos))"

definition dump_start :: "nat \<Rightarrow> nat \<Rightarrow> bytes \<Rightarrow> nat" where
  "dump_start max_bytes max_lines out =
     (let start = (if max_bytes \<noteq> 0 \<and> max_bytes < length out then length out - max_bytes else 0)
      in if max_lines \<noteq> 0 then start + tail_line_start (drop start out) max_lines else start)"

text \<open>\<open>dump_session\<close> on the stream that \<open>connect_session\<close> returned: what it prints.\<close>

definition dump_session :: "nat \<Rightarrow> nat \<Rightarrow> (sock, bytes) call" where
  "dump_session max_bytes max_lines =
     and_then recv_packet_blocking (\<lambda>pid.
     and_then (send_packet_blocking \<lparr>mtyp = MSG_DUMP, payload = []\<rparr>) (\<lambda>u.
     and_then (dump_loop []) (\<lambda>out.
       return_ok (drop (dump_start max_bytes max_lines out) out))))"

subsection \<open>Lines\<close>

fun lines_of :: "bytes \<Rightarrow> bytes list" where
  "lines_of [] = []"
| "lines_of (b # bs) =
     (if b = 10 then [b] # lines_of bs
      else case lines_of bs of [] \<Rightarrow> [[b]] | l # ls \<Rightarrow> (b # l) # ls)"

lemma concat_lines_of [simp]: "concat (lines_of bs) = bs"
  by (induction bs) (auto split: list.splits)

lemma lines_of_eq_Nil [simp]: "lines_of bs = [] \<longleftrightarrow> bs = []"
  by (cases bs) (auto split: list.splits)

lemma lines_of_newline: "lines_of (bs @ [10, y]) = lines_of (bs @ [10]) @ [[y]]"
  by (induction bs) (auto split: list.splits)

lemma lines_of_snoc:
  "bs \<noteq> [] \<Longrightarrow> last bs \<noteq> 10 \<Longrightarrow>
     lines_of (bs @ [y]) = butlast (lines_of bs) @ [last (lines_of bs) @ [y]]"
proof (induction bs)
  case (Cons b bs)
  show ?case
  proof (cases "bs = []")
    case False
    with Cons have "lines_of (bs @ [y]) = butlast (lines_of bs) @ [last (lines_of bs) @ [y]]" by simp
    moreover obtain l ls where "lines_of bs = l # ls" using False by (cases "lines_of bs") auto
    ultimately show ?thesis by simp
  qed (use Cons in auto)
qed simp

text \<open>How long the last \<open>m\<close> lines are.\<close>

definition tail_len :: "nat \<Rightarrow> bytes \<Rightarrow> nat" where
  "tail_len m bs = length (concat (last_n m (lines_of bs)))"

lemma last_n_snoc: "0 < m \<Longrightarrow> last_n m (xs @ [x]) = last_n (m - 1) xs @ [x]"
  by (cases m) (auto simp: last_n_append)

lemma tail_len_newline: "0 < m \<Longrightarrow> tail_len m (bs @ [10, y]) = Suc (tail_len (m - 1) (bs @ [10]))"
  by (simp add: tail_len_def lines_of_newline last_n_snoc)

lemma tail_len_snoc:
  assumes "bs \<noteq> []" "last bs \<noteq> 10" "0 < m"
  shows "tail_len m (bs @ [y]) = Suc (tail_len m bs)"
proof -
  have "lines_of bs = butlast (lines_of bs) @ [last (lines_of bs)]"
    using assms(1) by simp
  then have "tail_len m bs = length (concat (last_n (m - 1) (butlast (lines_of bs)) @ [last (lines_of bs)]))"
    unfolding tail_len_def using assms(3) by (metis last_n_snoc)
  with assms show ?thesis by (simp add: tail_len_def lines_of_snoc last_n_snoc)
qed

text \<open>Which byte ends the last line does not matter to the lengths.\<close>

lemma tail_len_end:
  assumes "0 < m" shows "tail_len m (bs @ [y]) = tail_len m (bs @ [z])"
proof (cases "bs = [] \<or> last bs = 10")
  case True
  then show ?thesis
  proof
    assume "bs = []"
    with assms show ?thesis by (simp add: tail_len_def last_n_def)
  next
    assume "last bs = 10"
    show ?thesis
    proof (cases "bs = []")
      case False
      with \<open>last bs = 10\<close> obtain cs where "bs = cs @ [10]" by (metis append_butlast_last_id)
      with assms show ?thesis by (simp add: tail_len_newline)
    qed (use assms in \<open>simp add: tail_len_def last_n_def\<close>)
  qed
qed (use assms in \<open>simp add: tail_len_snoc\<close>)

lemma tail_len_0 [simp]: "tail_len 0 bs = 0"
  by (simp add: tail_len_def last_n_def)

lemma tail_scan_len:
  "pos \<le> length data \<Longrightarrow> found < lines \<Longrightarrow>
     tail_scan data lines found pos + tail_len (lines - found) (take pos data @ [y]) = Suc pos"
proof (induction data lines found pos arbitrary: y rule: tail_scan.induct)
  case (1 data lines found)
  then show ?case by (simp add: tail_len_def last_n_def)
next
  case (2 data lines found pos)
  let ?P = "take pos data"
  have P: "take (Suc pos) data = ?P @ [data ! pos]"
    using "2.prems"(1) by (simp add: take_Suc_conv_app_nth)
  show ?case
  proof (cases "data ! pos = 10")
    case True
    have len: "tail_len (lines - found) (?P @ [10, y]) = Suc (tail_len (lines - found - 1) (?P @ [10]))"
      using "2.prems"(2) by (simp add: tail_len_newline)
    show ?thesis
    proof (cases "found + 1 = lines")
      case True
      with len P \<open>data ! pos = 10\<close> show ?thesis by simp
    next
      case False
      then have "tail_scan data lines (found + 1) pos + tail_len (lines - (found + 1)) (?P @ [10]) = Suc pos"
        using "2.IH"(1) [OF True False, of 10] "2.prems" by simp
      with False True len P show ?thesis by simp
    qed
  next
    case False
    have "tail_len (lines - found) ((?P @ [data ! pos]) @ [y]) = Suc (tail_len (lines - found) (?P @ [data ! pos]))"
      using False "2.prems"(2) by (intro tail_len_snoc) simp_all
    with "2.IH"(2) [OF False, of "data ! pos"] False "2.prems" P show ?thesis by simp
  qed
qed

lemma last_n_concat: "drop (length (concat xs) - length (concat (last_n n xs))) (concat xs) = concat (last_n n xs)"
proof -
  obtain ys where "xs = ys @ last_n n xs" using last_n_suffix unfolding suffix_def by blast
  then have "concat xs = concat ys @ concat (last_n n xs)" by (metis concat_append)
  then show ?thesis by simp
qed

lemma tail_line_start_len:
  assumes "0 < n"
  shows "tail_line_start data n + tail_len n data = length data"
proof (cases "data = []")
  case False
  show ?thesis
  proof (cases "last data = 10")
    case True
    have "take (length data - 1) data @ [10] = data"
      using False True by (metis append_butlast_last_id butlast_conv_take)
    with tail_scan_len [of "length data - 1" data 0 n 10] False True assms show ?thesis
      by (simp add: tail_line_start_def Let_def last_conv_nth)
  next
    case nl: False
    with tail_len_snoc [OF False nl assms, of 0] tail_scan_len [of "length data" data 0 n 0] False assms
    show ?thesis by (simp add: tail_line_start_def Let_def last_conv_nth)
  qed
qed (simp add: tail_line_start_def tail_len_def last_n_def)

lemma tail_line_start_lines:
  assumes "0 < n"
  shows "drop (tail_line_start data n) data = concat (last_n n (lines_of data))"
proof -
  have "tail_line_start data n = length data - tail_len n data"
    using tail_line_start_len [OF assms, of data] by simp
  with last_n_concat [of "lines_of data" n] show ?thesis by (simp add: tail_len_def)
qed

subsection \<open>The whole command\<close>

lemma dump_trim:
  "drop (dump_start max_bytes max_lines out) out =
     (let kept = (if max_bytes = 0 then out else last_n max_bytes out)
      in if max_lines = 0 then kept else concat (last_n max_lines (lines_of kept)))"
proof -
  let ?start = "if max_bytes \<noteq> 0 \<and> max_bytes < length out then length out - max_bytes else 0"
  have k: "drop ?start out = (if max_bytes = 0 then out else last_n max_bytes out)"
    by (simp add: last_n_def)
  show ?thesis
  proof (cases "max_lines = 0")
    case False
    then have "drop (dump_start max_bytes max_lines out) out =
        drop (tail_line_start (drop ?start out) max_lines) (drop ?start out)"
      by (simp add: dump_start_def Let_def add.commute)
    also have "\<dots> = concat (last_n max_lines (lines_of (drop ?start out)))"
      using False by (intro tail_line_start_lines) simp
    finally show ?thesis using False k by (simp add: Let_def)
  qed (use k in \<open>simp add: dump_start_def Let_def\<close>)
qed

lemma dump_loop_receives:
  "list_all packet_ok ps \<Longrightarrow> \<forall>p \<in> set ps. mtyp p \<noteq> MSG_DUMP_END \<Longrightarrow>
   readable (rx s) = encode ps @ packet_bytes dump_end @ rest \<Longrightarrow>
     \<exists>s'. dump_loop out s =
         Some (Inr (out @ concat (map payload (filter (\<lambda>p. mtyp p = MSG_CONTENT) ps))), s') \<and>
       readable (rx s') = rest"
proof (induction ps arbitrary: out s)
  case Nil
  have "packet_ok dump_end" by (simp add: packet_ok_def dump_end_def)
  from recv_packet_next [OF this] Nil(3) obtain s' where
    "recv_packet_blocking s = Some (Inr dump_end, s')" "readable (rx s') = rest" by force
  then show ?case by (simp add: dump_loop.simps [of out s] dump_end_def wire_consts)
next
  case (Cons p ps)
  then have "readable (rx s) = packet_bytes p @ encode ps @ packet_bytes dump_end @ rest" by simp
  from recv_packet_next [OF _ this] Cons.prems(1) obtain s1 where
    r: "recv_packet_blocking s = Some (Inr p, s1)" "readable (rx s1) = encode ps @ packet_bytes dump_end @ rest"
    by auto
  from Cons.IH [OF _ _ r(2), of "if mtyp p = MSG_CONTENT then out @ payload p else out"] Cons.prems r(1)
  show ?case by (simp add: dump_loop.simps [of out s] split: if_splits)
qed

lemma dump_loop_wire: "dump_loop out s = Some (r, s') \<Longrightarrow> wire s' = wire s"
proof (induction out s rule: dump_loop.induct)
  case (1 out s)
  show ?case
  proof (cases "recv_packet_blocking s")
    case (Some q)
    then obtain x s1 where q: "recv_packet_blocking s = Some (x, s1)" by (cases q) auto
    have w: "wire s1 = wire s" using recv_packet_wire [OF q] by simp
    show ?thesis
    proof (cases x)
      case (Inr p)
      with "1.IH"(1) [OF q refl Inr] "1.IH"(2) [OF q refl Inr] "1.prems" q w show ?thesis
        by (auto simp: dump_loop.simps [of out s] split: if_splits)
    qed (use "1.prems" q w in \<open>simp add: dump_loop.simps [of out s]\<close>)
  qed (use "1.prems" in \<open>simp add: dump_loop.simps [of out s]\<close>)
qed

lemma dump_session_receives:
  assumes "packet_ok greeting" and "list_all packet_ok ps" and "\<forall>p \<in> set ps. mtyp p \<noteq> MSG_DUMP_END"
    and "readable (rx s) = encode (greeting # ps @ [dump_end])"
    and "list_all takes (tx s)" and "8 \<le> length (tx s)"
  shows "\<exists>s'. dump_session max_bytes max_lines s =
      Some (Inr (let out = concat (map payload (filter (\<lambda>p. mtyp p = MSG_CONTENT) ps))
                 in drop (dump_start max_bytes max_lines out) out), s') \<and>
    wire s' = wire s @ packet_bytes \<lparr>mtyp = MSG_DUMP, payload = []\<rparr>"
proof -
  let ?d = "\<lparr>mtyp = MSG_DUMP, payload = []\<rparr>"
  let ?out = "concat (map payload (filter (\<lambda>p. mtyp p = MSG_CONTENT) ps))"
  have "readable (rx s) = packet_bytes greeting @ encode ps @ packet_bytes dump_end" using assms(4) by simp
  from recv_packet_next [OF assms(1) this] obtain s1 where
    r: "recv_packet_blocking s = Some (Inr greeting, s1)"
    and r1: "readable (rx s1) = encode ps @ packet_bytes dump_end @ []" by auto
  have t: "tx s1 = tx s" and w: "wire s1 = wire s" using recv_sound [OF r] by blast+
  obtain s2 where snd: "send_packet_blocking ?d s1 = Some (Inr (), s2)"
    using write_all_takes [of s1 "packet_bytes ?d"] assms(5,6) t
    by (auto simp: send_packet_blocking_def)
  from send_packet_ok [OF snd] r1 have r2: "readable (rx s2) = encode ps @ packet_bytes dump_end @ []"
    and w2: "wire s2 = wire s @ packet_bytes ?d" using w by simp_all
  from dump_loop_receives [OF assms(2,3) r2, of "[]"] obtain s3 where
    l: "dump_loop [] s2 = Some (Inr ?out, s3)" by auto
  have "wire s3 = wire s2" using l by (rule dump_loop_wire)
  with w2 l snd r show ?thesis
    by (simp add: dump_session_def return_ok_def Let_def)
qed

subsection \<open>Properties\<close>

text \<open>\<open>tail_line_start\<close> finds the last \<open>n\<close> lines: for \<open>n > 0\<close> the suffix it selects is exactly the last
  \<open>n\<close> pieces of the buffer cut behind each newline (all of them when there are fewer), a last line
  without a newline counting as a line and a final newline not starting an empty one; the index
  stays within the buffer.\<close>

lemma tail_line_start_is_last_lines:
  assumes "0 < n"
  shows "drop (tail_line_start data n) data = concat (last_n n (lines_of data)) \<and>
    concat (lines_of data) = data \<and> tail_line_start data n \<le> length data"
  using tail_line_start_lines [OF assms, of data] tail_line_start_len [OF assms, of data] by simp

text \<open>C20: What \<open>lich -d\<close> prints is the tail of the history: when the server answers the request of a
  connection that is merely slow with \<open>send_history\<close>, and \<open>dump_session\<close> reads what was committed to
  it (in any pieces), the command returns, having sent one \<open>MSG_DUMP\<close>, with the last \<open>-N\<close> bytes of the
  snapshot, or the last \<open>-L\<close> lines of it, or all of it.\<close>

theorem dump_prints_history_tail:
  assumes "healthy c" and "length (snapshot h) \<le> HISTORY_CAP"
    and "length (send_queue c) + 1050640 \<le> SEND_QUEUE_CAP"
    and "outbound c = packet_bytes greeting" and "packet_ok greeting"
    and "readable (rx s) = outbound (send_history c h True)"
    and "list_all takes (tx s)" and "8 \<le> length (tx s)"
  shows "\<exists>s'. dump_session max_bytes max_lines s =
      Some (Inr (let kept = (if max_bytes = 0 then snapshot h else last_n max_bytes (snapshot h))
                 in if max_lines = 0 then kept else concat (last_n max_lines (lines_of kept))), s') \<and>
    wire s' = wire s @ packet_bytes \<lparr>mtyp = MSG_DUMP, payload = []\<rparr>"
proof -
  let ?ps = "replay_packets h"
  have "readable (rx s) = encode (greeting # ?ps @ [dump_end])"
    using replay_complete [OF assms(1-3), of True] assms(4,6) by simp
  moreover have c: "mtyp p = MSG_CONTENT" if "p \<in> set ?ps" for p
    using that by (auto simp: replay_packets_def content_def)
  then have "filter (\<lambda>p. mtyp p = MSG_CONTENT) ?ps = ?ps" by (simp add: filter_id_conv)
  moreover have "\<forall>p \<in> set ?ps. mtyp p \<noteq> MSG_DUMP_END" using c by (simp add: wire_consts)
  ultimately obtain s' where "dump_session max_bytes max_lines s =
      Some (Inr (drop (dump_start max_bytes max_lines (snapshot h)) (snapshot h)), s')"
    "wire s' = wire s @ packet_bytes \<lparr>mtyp = MSG_DUMP, payload = []\<rparr>"
    using dump_session_receives [OF assms(5) replay_packets_ok, of h s max_bytes max_lines] assms(7,8)
    by (auto simp: replay_packets_content Let_def)
  then show ?thesis by (simp add: dump_trim)
qed

definition dump_peer :: client where
  "dump_peer =
     \<lparr>stream = \<lparr>rx = [], tx = [Count 3, WriteErr eagain], wire = packet_bytes \<lparr>mtyp = MSG_PID, payload = []\<rparr>\<rparr>,
      buf = [], attached = False, flags = 0, disconnected = False, send_queue = [], close_after_drain = None\<rparr>"

theorem dump_prints_history_tail_witness:
  "\<exists>s'. dump_session 3 1
      \<lparr>rx = [Bytes (outbound (send_history dump_peer \<lparr>hbytes = [97, 10, 98]\<rparr> True))],
       tx = replicate 8 (Count 1), wire = []\<rparr> = Some (Inr [98], s')"
proof -
  have ne: "outbound (send_history dump_peer \<lparr>hbytes = [97, 10, 98]\<rparr> True) \<noteq> []"
    using send_history_prefix [of \<open>\<lparr>hbytes = [97, 10, 98]\<rparr>\<close> True dump_peer]
    by (auto simp: outbound_def dump_peer_def)
  show ?thesis
    using dump_prints_history_tail [of dump_peer "\<lparr>hbytes = [97, 10, 98]\<rparr>" "\<lparr>mtyp = MSG_PID, payload = []\<rparr>"
        "\<lparr>rx = [Bytes (outbound (send_history dump_peer \<lparr>hbytes = [97, 10, 98]\<rparr> True))],
          tx = replicate 8 (Count 1), wire = []\<rparr>" 3 1] ne
    by (auto simp: healthy_def dump_peer_def snapshot_def HISTORY_CAP_def SEND_QUEUE_CAP_def outbound_def
        packet_ok_def takes_def list_all_iff eagain_def last_n_def)
qed

end
