(* ===== verification/SendKeys.thy ===== *)
theory SendKeys
  imports ClientCalls Keyboard
begin

text \<open>
  \<open>lich -K\<close>: \<open>key_token_bytes\<close> and \<open>send_keys_session\<close> of \<open>main.rs\<close>, from the words of the
  command line to the packets on the connection, and on to the server's terminal. A string is the
  list of its UTF-8 bytes, so \<open>len\<close> and \<open>as_bytes\<close> are those of the source.
\<close>

definition key_token_bytes :: "string \<Rightarrow> bytes option" where
  "key_token_bytes token =
     (if token = ''Enter'' \<or> token = ''Return'' \<or> token = ''C-m'' then Some [13]
      else if token = ''Tab'' \<or> token = ''C-i'' then Some [9]
      else if token = ''Esc'' \<or> token = ''Escape'' then Some [27]
      else if token = ''Space'' then Some [32]
      else if token = ''Backspace'' \<or> token = ''BSpace'' then Some [127]
      else if token = ''Delete'' then Some (27 # as_bytes ''[3~'')
      else if token = ''Insert'' then Some (27 # as_bytes ''[2~'')
      else if token = ''Up'' then Some (27 # as_bytes ''[A'')
      else if token = ''Down'' then Some (27 # as_bytes ''[B'')
      else if token = ''Right'' then Some (27 # as_bytes ''[C'')
      else if token = ''Left'' then Some (27 # as_bytes ''[D'')
      else if token = ''Home'' then Some (27 # as_bytes ''[H'')
      else if token = ''End'' then Some (27 # as_bytes ''[F'')
      else if token = ''PageUp'' then Some (27 # as_bytes ''[5~'')
      else if token = ''PageDown'' then Some (27 # as_bytes ''[6~'')
      else if prefix ''C-'' token \<and> length token = 3 then Some [as_bytes token ! 2 AND 31]
      else if prefix ''^'' token \<and> length token = 2 then Some [as_bytes token ! 1 AND 31]
      else None)"

text \<open>The loop over \<open>keys.iter().enumerate()\<close>, with the bytes assembled so far.\<close>

fun keys_loop :: "bool \<Rightarrow> nat \<Rightarrow> string list \<Rightarrow> bytes \<Rightarrow> bytes" where
  "keys_loop literal idx [] bs = bs"
| "keys_loop literal idx (key # keys) bs =
     keys_loop literal (idx + 1) keys
       (if literal then (if idx > 0 then bs @ [32] else bs) @ as_bytes key
        else case key_token_bytes key of
          Some encoded \<Rightarrow> bs @ encoded
        | None \<Rightarrow> bs @ as_bytes key)"

definition send_keys_packets :: "string list \<Rightarrow> bool \<Rightarrow> packet list" where
  "send_keys_packets keys literal =
     map (\<lambda>chunk. \<lparr>mtyp = MSG_SEND_KEYS, payload = chunk\<rparr>) (chunks MAX_PAYLOAD (keys_loop literal 0 keys []))"

text \<open>\<open>send_keys_session\<close> on the stream that \<open>connect_session\<close> returned.\<close>

definition send_keys_session :: "string list \<Rightarrow> bool \<Rightarrow> (sock, unit) call" where
  "send_keys_session keys literal =
     and_then recv_packet_blocking (\<lambda>pid. send_seq send_packet_blocking (send_keys_packets keys literal))"

subsection \<open>The bytes of the keys\<close>

definition key_bytes :: "string \<Rightarrow> bytes" where
  "key_bytes key = (case key_token_bytes key of Some bs \<Rightarrow> bs | None \<Rightarrow> as_bytes key)"

lemma keys_loop_tokens: "keys_loop False i keys bs = bs @ concat (map key_bytes keys)"
  by (induction keys arbitrary: i bs) (simp_all add: key_bytes_def split: option.splits)

lemma keys_loop_literal: "0 < i \<Longrightarrow> keys_loop True i keys bs = bs @ concat (map (\<lambda>k. 32 # as_bytes k) keys)"
  by (induction keys arbitrary: i bs) simp_all

fun words :: "string list \<Rightarrow> string" where
  "words [] = []"
| "words [k] = k"
| "words (k # ks) = k @ '' '' @ words ks"

lemma words_bytes: "as_bytes (words (k # ks)) = as_bytes k @ concat (map (\<lambda>k. 32 # as_bytes k) ks)"
  by (induction ks arbitrary: k) simp_all

text \<open>What the words of the command line mean as input.\<close>

definition keys_input :: "bool \<Rightarrow> string list \<Rightarrow> bytes" where
  "keys_input literal keys = (if literal then as_bytes (words keys) else concat (map key_bytes keys))"

lemma keys_loop_input: "keys_loop literal 0 keys [] = keys_input literal keys"
proof (cases literal)
  case True
  then show ?thesis by (cases keys) (simp_all add: keys_input_def keys_loop_literal words_bytes)
next
  case False
  then show ?thesis using keys_loop_tokens [of 0 keys "[]"] by (simp add: keys_input_def)
qed

lemma send_keys_payload: "concat (map payload (send_keys_packets keys literal)) = keys_loop literal 0 keys []"
  by (simp add: send_keys_packets_def comp_def)

lemma send_keys_packets_ok: "list_all packet_ok (send_keys_packets keys literal)"
  by (auto simp: send_keys_packets_def list_all_iff packet_ok_def dest: chunks_bounds)

lemma send_keys_typed:
  "f AND CLIENT_READONLY = 0 \<Longrightarrow>
     typed f (send_keys_packets keys literal) = map payload (send_keys_packets keys literal)"
  by (rule typed_keys) (auto simp: send_keys_packets_def)

lemma send_keys_ok:
  assumes "send_keys_session keys literal s = Some (Inr (), s')"
  shows "wire s' = wire s @ encode (send_keys_packets keys literal)"
proof -
  obtain p s1 where "recv_packet_blocking s = Some (Inr p, s1)"
    "send_seq send_packet_blocking (send_keys_packets keys literal) s1 = Some (Inr (), s')"
    using assms unfolding send_keys_session_def by (rule and_then_okE)
  then show ?thesis using recv_packet_ok blocking.send_seq_ok by metis
qed

subsection \<open>Properties\<close>

text \<open>Control-key tokens are one rule: for every ASCII-or-other byte \<open>c\<close> (so for \<open>C-m\<close> and \<open>C-i\<close>, which
  have arms of their own, as well) the tokens \<open>C-c\<close> and \<open>^c\<close> give the single byte \<open>c & 0x1f\<close>, a
  control character below 32.\<close>

lemma control_keys_uniform:
  "key_token_bytes (''C-'' @ [c]) = Some [of_char c AND 31] \<and>
   key_token_bytes (''^'' @ [c]) = Some [of_char c AND 31] \<and>
   unat (of_char c AND (31 :: u8)) < 32"
proof -
  have m: "(of_char (CHR ''m'') :: u8) AND 31 = 13" "(of_char (CHR ''i'') :: u8) AND 31 = 9"
    by (simp_all add: of_char_def)
  have "unat ((w :: u8) AND 31) \<le> unat (31 :: u8)" for w
    using word_and_le1 [of w 31] unfolding word_le_nat_alt .
  then have "unat ((w :: u8) AND 31) < 32" for w using le_less_trans by fastforce
  then show ?thesis using m by (simp add: key_token_bytes_def)
qed

text \<open>What \<open>-K\<close> sends is what was asked for: without \<open>-x\<close> the concatenation of each word's key
  sequence, or of the word itself where it names no key; with \<open>-x\<close> the words joined by single
  spaces. It goes out in packets of at most \<open>MAX_PAYLOAD\<close> bytes that concatenate to it, none empty.\<close>

lemma send_keys_content:
  "concat (map payload (send_keys_packets keys False)) = concat (map key_bytes keys) \<and>
   concat (map payload (send_keys_packets keys True)) = as_bytes (words keys) \<and>
   (\<forall>p \<in> set (send_keys_packets keys literal).
      mtyp p = MSG_SEND_KEYS \<and> payload p \<noteq> [] \<and> length (payload p) \<le> MAX_PAYLOAD)"
  using keys_loop_input [of True keys] keys_loop_input [of False keys]
  by (auto simp: send_keys_payload keys_input_def) (auto simp: send_keys_packets_def dest: chunks_bounds)

text \<open>C21: From the command line to the terminal: when \<open>send_keys_session\<close> reports success and the server
  reads, from a connection it has just accepted, the bytes the command wrote (in any pieces, with the
  end of file behind them or not), while the pty accepts bytes, the terminal's input grows by
  exactly what was asked for: the words joined by single spaces with \<open>-x\<close>, and otherwise each
  word's key sequence, or the word itself where it names no key.\<close>

theorem send_keys_reach_terminal:
  assumes "send_keys_session keys literal s = Some (Inr (), s')"
    and "i < length (clients sv)" and "c = clients sv ! i" and "buf c = []" and "flags c = 0"
    and "readable (rx (stream c)) = drop (length (wire s)) (wire s')"
    and "\<not> read_fails (rx (stream c))"
    and "list_all takes (m_tx sv)" and "length (keys_input literal keys) \<le> length (m_tx sv)"
  shows "m_in (read_client_packets inst pid i sv) = m_in sv @ keys_input literal keys"
proof -
  let ?ps = "send_keys_packets keys literal"
  have "buf c @ readable (rx (stream c)) = encode ?ps"
    using send_keys_ok [OF assms(1)] assms(4,6) by simp
  moreover have t: "concat (typed (flags c) ?ps) = keys_input literal keys"
    using send_keys_typed [of "flags c"] assms(5) by (simp add: send_keys_payload keys_loop_input)
  ultimately have "m_in (snd (read_client inst pid (c, sv))) =
      m_in (fold write_master (typed (flags c) ?ps) sv)"
    using read_client_typed [OF assms(7)] pop_all_encode [OF send_keys_packets_ok] by simp
  also have "\<dots> = m_in sv @ keys_input literal keys"
    using fold_write_master_takes [OF assms(8)] assms(9) t by simp
  finally show ?thesis using assms(3) by (simp add: read_client_packets_in)
qed

definition key_server :: server where
  "key_server =
     (server_init True [] [Count 9])\<lparr>clients :=
       [new_client \<lparr>rx = [Bytes [8, 0, 0, 0], Bytes [1, 0, 0, 0, 13], ReadErr eagain], tx = [], wire = []\<rparr>]\<rparr>"

lemma key_run:
  "send_keys_session [''Enter''] False
      \<lparr>rx = [Bytes [5, 0, 0, 0, 0, 0, 0, 0]], tx = [Count 5, Count 9], wire = []\<rparr> =
    Some (Inr (), \<lparr>rx = [], tx = [], wire = [8, 0, 0, 0, 1, 0, 0, 0, 13]\<rparr>)"
proof -
  have "recv_packet_blocking \<lparr>rx = [Bytes [5, 0, 0, 0, 0, 0, 0, 0]], tx = [Count 5, Count 9], wire = []\<rparr> =
      Some (Inr \<lparr>mtyp = 5, payload = []\<rparr>, \<lparr>rx = [], tx = [Count 5, Count 9], wire = []\<rparr>)"
    by (simp add: recv_packet_blocking_def read_exact.simps [of 8] sys_read_def u32_from_ne_bytes_def Let_def)
  then show ?thesis
    by (simp add: send_keys_session_def send_keys_packets_def key_token_bytes_def chunks.simps MAX_PAYLOAD_def
        send_packet_blocking_def packet_bytes_def u32_to_ne_bytes_def le_bytes_numeral MSG_SEND_KEYS_def
        write_all_def)
qed

theorem send_keys_reach_terminal_witness:
  "m_in (read_client_packets 0 1 0 key_server) = [13]"
proof -
  have r: "\<not> read_fails [Bytes [8, 0, 0, 0], Bytes [1, 0, 0, 0, 13], ReadErr eagain]"
    unfolding read_fails_def
    by (subst read_loop.simps, simp, subst read_loop.simps, simp)
      (subst read_loop.simps, simp add: eagain_def)
  show ?thesis
    using send_keys_reach_terminal [OF key_run, of 0 key_server _ 0 1] r
    by (simp add: key_server_def server_init_def new_client_def takes_def keys_input_def key_bytes_def
        key_token_bytes_def eagain_def)
qed

end
