(* ===== verification/Listing.thy ===== *)
theory Listing
  imports Sessions
begin

text \<open>
  \<open>lich\<close> without arguments: \<open>list_sessions\<close> of \<open>main.rs\<close>. The entries of the directory are an
  argument, with the broken-down time of their modification.
\<close>

subsection \<open>The listing\<close>

function trim_end_matches :: "string \<Rightarrow> string \<Rightarrow> string" where
  "trim_end_matches pat s =
     (if pat \<noteq> [] \<and> suffix pat s then trim_end_matches pat (take (length s - length pat) s) else s)"
  by pat_completeness auto
termination
  by (relation "measure (\<lambda>(pat, s). length s)") (auto intro!: diff_less)

declare trim_end_matches.simps [simp del]

record dir_entry =
  entry_name :: string
  modified :: "tm option option"

definition session_line :: "string \<Rightarrow> u64 \<Rightarrow> string \<Rightarrow> string" where
  "session_line mtime pid session =
     ''  ?'' @ [CHR 0x09] @ mtime @ [CHR 0x09] @ show_nat (unat pid) @ [CHR 0x09] @ session"

text \<open>The lines printed and how the loop ended; \<open>None\<close>: a server that accepts and never greets.\<close>

fun list_loop ::
  "host \<Rightarrow> world \<Rightarrow> string \<Rightarrow> string \<Rightarrow> dir_entry io_result list \<Rightarrow> (string list \<times> unit io_result) option" where
  "list_loop h w base hn [] = Some ([], Inr ())"
| "list_loop h w base hn (Inl e # es) = Some ([], Inl e)"
| "list_loop h w base hn (Inr ent # es) =
     (let name = entry_name ent; tail = ''@'' @ hn
      in if \<not> suffix tail name then list_loop h w base hn es
         else
           let session = trim_end_matches tail name
           in case unix_connect h (path_join base name) w of
                Inl e \<Rightarrow> list_loop h w base hn es
              | Inr i \<Rightarrow>
                  (case recv_packet_blocking (peer h i) of
                     None \<Rightarrow> None
                   | Some (Inl e, s) \<Rightarrow> list_loop h w base hn es
                   | Some (Inr pkt, s) \<Rightarrow>
                       if mtyp pkt = MSG_PID
                       then map_option (map_prod (\<lambda>ls. session_line
                              (case modified ent of None \<Rightarrow> ''unknown'' | Some t \<Rightarrow> format_iso_local t)
                              (case read_u64 (payload pkt) of None \<Rightarrow> 0 | Some p \<Rightarrow> p) session # ls) id)
                              (list_loop h w base hn es)
                       else list_loop h w base hn es))"

definition list_sessions ::
  "host \<Rightarrow> world \<Rightarrow> (string \<Rightarrow> dir_entry io_result list io_result) \<Rightarrow> (string list \<times> unit io_result) option" where
  "list_sessions h w read_dir =
     (case socket_base_dir h w of
        (Inl e, w1) \<Rightarrow> Some ([], Inl e)
      | (Inr base, w1) \<Rightarrow>
          (let hn = hostname h; header = ''Active sessions (on host '' @ hn @ '')''
           in case read_dir base of
                Inl e \<Rightarrow> Some ([header], Inl e)
              | Inr es \<Rightarrow> map_option (map_prod (\<lambda>ls. header # ls) id) (list_loop h w1 base hn es)))"

subsection \<open>Trimming\<close>

lemma suffix_appended [simp]: "suffix ys (xs @ ys)"
  by (simp add: suffix_def)

lemma trim_end_matches_once:
  "pat \<noteq> [] \<Longrightarrow> \<not> suffix pat s \<Longrightarrow> trim_end_matches pat (s @ pat) = s"
  by (simp add: trim_end_matches.simps [of pat "s @ pat"] trim_end_matches.simps [of pat s])

lemma trim_end_matches_twice: "pat \<noteq> [] \<Longrightarrow> trim_end_matches pat (s @ pat) = trim_end_matches pat s"
  by (simp add: trim_end_matches.simps [of pat "s @ pat"])

lemma list_loop_live:
  assumes "entry_name ent = n @ ''@'' @ hn"
    and "unix_connect h (path_join base (n @ ''@'' @ hn)) w = Inr i"
    and "recv_packet_blocking (peer h i) = Some (Inr pkt, s)" and "mtyp pkt = MSG_PID"
    and "read_u64 (payload pkt) = Some pid"
    and "list_loop h w base hn es = Some (ls, r)"
  shows "list_loop h w base hn (Inr ent # es) =
    Some (session_line (case modified ent of None \<Rightarrow> ''unknown'' | Some t \<Rightarrow> format_iso_local t) pid
        (trim_end_matches (''@'' @ hn) n) # ls, r)"
  using assms trim_end_matches_twice [of "''@'' @ hn" n] by (simp add: Let_def suffix_def)

subsection \<open>Properties\<close>

text \<open>C33: A live session is listed with its server's pid under the name it was created with: the entry
  \<open>name@host\<close> of a server whose greeting carries the pid gives one line with that pid in decimal and
  exactly that name, provided the name itself does not end in \<open>@host\<close>.\<close>

theorem live_session_listed:
  assumes "entry_name ent = n @ ''@'' @ hn" and "\<not> suffix (''@'' @ hn) n"
    and "unix_connect h (path_join base (n @ ''@'' @ hn)) w = Inr i"
    and "readable (rx (peer h i)) = packet_bytes \<lparr>mtyp = MSG_PID, payload = u64_to_ne_bytes pid\<rparr> @ rest"
    and "list_loop h w base hn es = Some (ls, r)"
  shows "list_loop h w base hn (Inr ent # es) =
    Some (session_line (case modified ent of None \<Rightarrow> ''unknown'' | Some t \<Rightarrow> format_iso_local t) pid n # ls, r)"
proof -
  let ?p = "\<lparr>mtyp = MSG_PID, payload = u64_to_ne_bytes pid\<rparr>"
  have "packet_ok ?p" by (simp add: packet_ok_def MAX_PAYLOAD_def)
  from recv_packet_next [OF this assms(4)] obtain s where
    "recv_packet_blocking (peer h i) = Some (Inr ?p, s)" by blast
  moreover have "trim_end_matches (''@'' @ hn) n = n"
    using assms(2) by (simp add: trim_end_matches.simps [of _ n])
  ultimately show ?thesis
    using list_loop_live [OF assms(1,3) _ _ _ assms(5), of ?p s pid] read_u64_bytes [of pid "[]"] by simp
qed

definition pid_host :: host where
  "pid_host = demo_host\<lparr>peer := (\<lambda>i.
     \<lparr>rx = [Bytes (packet_bytes \<lparr>mtyp = MSG_PID, payload = u64_to_ne_bytes 4242\<rparr>)], tx = [], wire = []\<rparr>)\<rparr>"

theorem live_session_listed_witness:
  "list_loop pid_host live_world ''/h/.lich'' ''h'' [Inr \<lparr>entry_name = ''a@h'', modified = None\<rparr>] =
     Some ([session_line ''unknown'' 4242 ''a''], Inr ())"
  using live_session_listed [of "\<lparr>entry_name = ''a@h'', modified = None\<rparr>" "''a''" "''h''" pid_host "''/h/.lich''"
      live_world 4 4242 "[]" "[]" "[]" "Inr ()"]
  by (simp add: pid_host_def demo_host_def live_world_def unix_connect_def path_join_def suffix_def
      del: list_loop.simps(3))

text \<open>A session whose name ends in \<open>@host\<close> is listed under a name that is not its own, and that
  another session may have: \<open>trim_end_matches\<close> strips the suffix as often as it occurs, so the sessions
  \<open>n\<close> and \<open>n@host\<close>, whose sockets differ, print the same name.\<close>

lemma host_suffixed_name_ambiguous:
  assumes "\<not> suffix (''@'' @ hn) n"
  shows "trim_end_matches (''@'' @ hn) ((n @ ''@'' @ hn) @ ''@'' @ hn) = n \<and>
    trim_end_matches (''@'' @ hn) (n @ ''@'' @ hn) = n \<and>
    path_join base ((n @ ''@'' @ hn) @ ''@'' @ hn) \<noteq> path_join base (n @ ''@'' @ hn)"
proof -
  have "trim_end_matches (''@'' @ hn) (n @ ''@'' @ hn) = n"
    using assms by (intro trim_end_matches_once) simp_all
  moreover have "trim_end_matches (''@'' @ hn) ((n @ ''@'' @ hn) @ ''@'' @ hn) =
      trim_end_matches (''@'' @ hn) (n @ ''@'' @ hn)"
    by (rule trim_end_matches_twice) simp
  moreover have "prefix ''/'' (n @ CHR ''@'' # x) \<longleftrightarrow> prefix ''/'' n" for x by (cases n) auto
  then have "path_join base ((n @ ''@'' @ hn) @ ''@'' @ hn) \<noteq> path_join base (n @ ''@'' @ hn)"
    by (auto simp: path_join_def)
  ultimately show ?thesis by simp
qed

text \<open>The server's log lies beside its socket and is not taken for a session: for the socket
  \<open>name@host\<close> in a base directory the log is \<open>name@host.log\<close> in the same directory, and the
  listing skips that entry, whatever it could connect to.\<close>

lemma log_beside_socket_not_listed:
  assumes "CHR ''/'' \<notin> set n" and "CHR ''/'' \<notin> set hn" and "CHR ''@'' \<notin> set hn"
    and "base \<noteq> []" and "last base \<noteq> CHR ''/''"
  shows "derive_server_log_path (path_join base (n @ ''@'' @ hn)) = path_join base (n @ ''@'' @ hn @ ''.log'') \<and>
    list_loop h w base hn (Inr \<lparr>entry_name = n @ ''@'' @ hn @ ''.log'', modified = m\<rparr> # es) = list_loop h w base hn es"
proof -
  let ?f = "n @ ''@'' @ hn"
  have "CHR ''/'' \<notin> set ?f" "?f \<noteq> []" using assms(1,2) by simp_all
  note l = last_component [OF this assms(4,5)]
  have "CHR ''@'' \<in> set ?f" "CHR ''@'' \<notin> set ''..''" by simp_all
  then have "?f \<noteq> ''..''" by metis
  with l have "derive_server_log_path (path_join base ?f) = path_join base (?f @ ''.log'')"
    by (simp add: derive_server_log_path_def)
  moreover have "\<not> suffix (''@'' @ hn) (n @ ''@'' @ hn @ ''.log'')"
  proof
    assume "suffix (''@'' @ hn) (n @ ''@'' @ hn @ ''.log'')"
    then obtain u where u: "(n @ ''@'') @ hn @ ''.log'' = u @ ''@'' @ hn" by (auto simp: suffix_def)
    have len: "length u + 1 + length hn = length n + 1 + length hn + 4"
      using arg_cong [OF u, of length] by simp
    have "(hn @ ''.log'') ! 3 = CHR ''@''"
      using arg_cong [OF u, of "\<lambda>x. x ! (length n + 4)"] len by (simp add: nth_append)
    then show False using assms(3)
      by (cases "3 < length hn") (auto simp: nth_append in_set_conv_nth nth_Cons' split: if_splits)
  qed
  ultimately show ?thesis by (simp add: Let_def)
qed

end
