(* ===== verification/Program.thy ===== *)
theory Program
  imports Relay Dump SendKeys Listing
begin

text \<open>
  The program as a whole: \<open>main\<close> and the commands \<open>real_main\<close> hands over to, run against the shared
  \<open>world\<close>. \<open>outside\<close> is what one run of the program finds: its host, what the connection
  the command works on delivers and takes, its terminal, what \<open>fork\<close> and the startup pipe answer, and
  the directory's entries. A command that is still running, or waits in a call, has no result.
\<close>

subsection \<open>Running a command\<close>

record outside =
  host_of :: host
  stream_to :: "nat \<Rightarrow> sock"
  console :: attach_io
  on_terminal :: bool
  term_attr :: "termios option"
  term_consts :: termios_consts
  first_size :: "(u16 \<times> u16) option"
  rounds_of :: "round list"
  launched :: launch
  entries :: "string \<Rightarrow> dir_entry io_result list io_result"

text \<open>What a run comes to: bytes printed and a result, an attached client, or a call that has not returned.\<close>

datatype run_result =
    Output bytes "unit io_result"
  | AttachRun attach_result
  | Waiting

definition print_bytes :: "outside \<Rightarrow> bytes \<Rightarrow> run_result" where
  "print_bytes o' bs =
     (case stdout_write bs (console o') of
        None \<Rightarrow> Waiting
      | Some (r, st) \<Rightarrow> Output (shown st) r)"

definition attach_command :: "outside \<Rightarrow> string \<Rightarrow> opts \<Rightarrow> world \<Rightarrow> run_result \<times> world" where
  "attach_command o' name os w =
     (case connect_session (host_of o') name w of
        (Inl e, w1) \<Rightarrow> (Output [] (Inl e), w1)
      | (Inr i, w1) \<Rightarrow>
          (AttachRun (attach_session name True os (envvar (host_of o')) (first_size o') (term_consts o')
             (on_terminal o') (term_attr o') (rounds_of o') ((console o')\<lparr>conn := stream_to o' i\<rparr>)), w1))"

definition create_command :: "outside \<Rightarrow> string \<Rightarrow> string list \<Rightarrow> world \<Rightarrow> run_result \<times> world" where
  "create_command o' name cmd w =
     (case create_session (host_of o') name cmd (launched o') w of
        (None, w1) \<Rightarrow> (Waiting, w1)
      | (Some r, w1) \<Rightarrow> (Output [] r, w1))"

text \<open>\<open>create_session(..)?\<close> and then \<open>attach_session\<close>.\<close>

definition create_attach_command ::
  "outside \<Rightarrow> string \<Rightarrow> string list \<Rightarrow> opts \<Rightarrow> world \<Rightarrow> run_result \<times> world" where
  "create_attach_command o' name cmd os w =
     (case create_session (host_of o') name cmd (launched o') w of
        (None, w1) \<Rightarrow> (Waiting, w1)
      | (Some (Inl e), w1) \<Rightarrow> (Output [] (Inl e), w1)
      | (Some (Inr u), w1) \<Rightarrow> attach_command o' name os w1)"

definition attach_or_create_command ::
  "outside \<Rightarrow> string \<Rightarrow> string list \<Rightarrow> opts \<Rightarrow> world \<Rightarrow> run_result \<times> world" where
  "attach_or_create_command o' name cmd os w =
     (case session_alive (host_of o') name w of
        (None, w1) \<Rightarrow> (Waiting, w1)
      | (Some True, w1) \<Rightarrow> attach_command o' name os w1
      | (Some False, w1) \<Rightarrow> create_attach_command o' name cmd os w1)"

definition dump_command :: "outside \<Rightarrow> string \<Rightarrow> nat \<Rightarrow> nat \<Rightarrow> world \<Rightarrow> run_result \<times> world" where
  "dump_command o' name nb nl w =
     (case connect_session (host_of o') name w of
        (Inl e, w1) \<Rightarrow> (Output [] (Inl e), w1)
      | (Inr i, w1) \<Rightarrow>
          ((case dump_session nb nl (stream_to o' i) of
              None \<Rightarrow> Waiting
            | Some (Inl e, s) \<Rightarrow> Output [] (Inl e)
            | Some (Inr bs, s) \<Rightarrow> print_bytes o' bs), w1))"

definition send_keys_command :: "outside \<Rightarrow> string \<Rightarrow> string list \<Rightarrow> bool \<Rightarrow> world \<Rightarrow> run_result \<times> world" where
  "send_keys_command o' name keys literal w =
     (case connect_session (host_of o') name w of
        (Inl e, w1) \<Rightarrow> (Output [] (Inl e), w1)
      | (Inr i, w1) \<Rightarrow>
          ((case send_keys_session keys literal (stream_to o' i) of
              None \<Rightarrow> Waiting
            | Some (r, s) \<Rightarrow> Output [] r), w1))"

definition list_command :: "outside \<Rightarrow> world \<Rightarrow> run_result \<times> world" where
  "list_command o' w =
     ((case list_sessions (host_of o') w (entries o') of
         None \<Rightarrow> Waiting
       | Some (ls, r) \<Rightarrow> Output (concat (map (\<lambda>l. as_bytes (l @ [CHR 0x0A])) ls)) r),
      snd (socket_base_dir (host_of o') w))"

fun run_command :: "outside \<Rightarrow> command \<Rightarrow> world \<Rightarrow> run_result \<times> world" where
  "run_command o' ShowVersion w = (Output (as_bytes (''lich-rust-0.1.0'' @ [CHR 0x0A])) (Inr ()), w)"
| "run_command o' ListSessions w = list_command o' w"
| "run_command o' (RunCreate n cmd os) w = create_command o' n cmd w"
| "run_command o' (RunCreateAttach n cmd os) w = create_attach_command o' n cmd os w"
| "run_command o' (RunAttach n os) w = attach_command o' n os w"
| "run_command o' (RunAttachOrCreate n cmd os) w = attach_or_create_command o' n cmd os w"
| "run_command o' (RunDump n nb nl) w = dump_command o' n nb nl w"
| "run_command o' (RunSendKeys n keys literal) w = send_keys_command o' n keys literal w"

text \<open>\<open>main\<close>: the command, and the process's exit status (the low byte of the code) and last words.\<close>

definition lich :: "outside \<Rightarrow> string list \<Rightarrow> world \<Rightarrow> run_result \<times> world" where
  "lich o' args w =
     (case real_main (envvar (host_of o')) (on_terminal o') args of
        Inl e \<Rightarrow> (Output [] (Inl e), w)
      | Inr cmd \<Rightarrow> run_command o' cmd w)"

fun main_exit :: "run_result \<Rightarrow> (nat \<times> string) option" where
  "main_exit (Output out (Inr u)) = Some (0, [])"
| "main_exit (Output out (Inl e)) = Some (1, ''lich: '' @ err_msg e @ [CHR 0x0A])"
| "main_exit (AttachRun (Finished st)) = Some (0, [])"
| "main_exit (AttachRun (AttachFailed e st)) = Some (1, ''lich: '' @ err_msg e @ [CHR 0x0A])"
| "main_exit (AttachRun (ExitProcess code st)) = Some (unat (code AND 255), [])"
| "main_exit (AttachRun (Attached st)) = None"
| "main_exit (AttachRun AttachHeld) = None"
| "main_exit Waiting = None"

subsection \<open>Well-formed worlds\<close>

definition world_ok :: "world \<Rightarrow> bool" where
  "world_ok w \<longleftrightarrow>
     (\<forall>p i. fs w p = Some (SocketFile i) \<longrightarrow> i < next_id w) \<and>
     (\<forall>i \<in> set (listening w). i < next_id w) \<and> distinct (listening w) \<and> (\<forall>d \<in> dirs w. fs w d = None)"

text \<open>A log file before and after: it has been made or has grown, and it was no socket.\<close>

definition log_grown :: "node option \<Rightarrow> node option \<Rightarrow> bool" where
  "log_grown a b \<longleftrightarrow>
     (\<exists>l. b = Some (RegularFile ((case a of Some (RegularFile t) \<Rightarrow> t | _ \<Rightarrow> []) @ l))) \<and>
     (\<forall>i. a \<noteq> Some (SocketFile i))"

lemma log_grown_trans: "log_grown a b \<Longrightarrow> log_grown b c \<Longrightarrow> log_grown a c"
  by (auto simp: log_grown_def)

lemma server_log_grows: "fs (server_log (Some p) k pid e w) p = fs w p \<or> log_grown (fs w p) (fs (server_log (Some p) k pid e w) p)"
  by (auto simp: server_log_def log_grown_def split: option.split node.split)

text \<open>
  \<open>within P L D w w'\<close>: a step that may change the files in \<open>P\<close>, add to the logs in \<open>L\<close> and make the directories in
  \<open>D\<close>, and stops no server.
\<close>

definition within :: "string set \<Rightarrow> string set \<Rightarrow> string set \<Rightarrow> world \<Rightarrow> world \<Rightarrow> bool" where
  "within P L D w w' \<longleftrightarrow>
     (world_ok w \<longrightarrow>
        world_ok w' \<and> next_id w \<le> next_id w' \<and> set (listening w) \<subseteq> set (listening w') \<and>
        (\<forall>q. q \<notin> P \<longrightarrow> fs w' q = fs w q \<or> q \<in> L \<and> log_grown (fs w q) (fs w' q)) \<and>
        dirs w \<subseteq> dirs w' \<and> dirs w' \<subseteq> dirs w \<union> D)"

lemma within_refl [simp]: "within P L D w w"
  by (simp add: within_def)

lemma within_trans [trans]: "within P L D w w1 \<Longrightarrow> within P L D w1 w2 \<Longrightarrow> within P L D w w2"
  unfolding within_def by (auto dest: log_grown_trans) (metis log_grown_trans)+

lemma within_mono: "within P L D w w' \<Longrightarrow> L \<subseteq> L' \<Longrightarrow> D \<subseteq> D' \<Longrightarrow> within P L' D' w w'"
  unfolding within_def by blast

lemma within_dirs:
  "fs w' = fs w \<Longrightarrow> listening w' = listening w \<Longrightarrow> next_id w' = next_id w \<Longrightarrow> dirs w \<subseteq> dirs w' \<Longrightarrow>
     dirs w' \<subseteq> dirs w \<union> D \<Longrightarrow> \<forall>q \<in> dirs w' - dirs w. fs w q = None \<Longrightarrow> within P L D w w'"
  by (auto simp: within_def world_ok_def)

lemma within_act [simp]: "within P L D w (act e w)"
  by (rule within_dirs) simp_all

lemma within_remove: "p \<in> P \<Longrightarrow> within P L D w (remove_file p w)"
  by (auto simp: within_def world_ok_def remove_file_def)

lemma within_log: "p \<in> L \<Longrightarrow> within P L D w (server_log (Some p) k pid e w)"
  using server_log_grows [of p k pid e w]
  by (auto simp: within_def world_ok_def server_log_def split: option.splits node.splits if_splits)

text \<open>The path a name stands for, its server's log, and the directories above either.\<close>

definition own_path :: "host \<Rightarrow> string \<Rightarrow> string set" where
  "own_path h name = {p. \<forall>w. fst (socket_path h name w) = Inr p}"

definition own_log :: "host \<Rightarrow> string \<Rightarrow> string set" where
  "own_log h name = derive_server_log_path ` own_path h name"

definition own_made :: "host \<Rightarrow> string \<Rightarrow> string set" where
  "own_made h name = base_dirs h \<union> (\<Union>p \<in> own_path h name. own_dirs h p)"

lemma own_pathI: "socket_path h name w = (Inr p, w1) \<Longrightarrow> p \<in> own_path h name"
  using socket_path_world [of h name w] by (simp add: own_path_def)

lemma within_socket_path: "socket_path h name w = (r, w1) \<Longrightarrow> within P L (base_dirs h) w w1"
  by (rule within_dirs) (auto dest: socket_path_cases)

lemma within_connect:
  assumes "connect_session h name w = (r, w')"
  shows "within (own_path h name) {} (base_dirs h) w w'"
proof (cases "socket_path h name w")
  case (Pair x w1)
  have 1: "within (own_path h name) {} (base_dirs h) w w1" using Pair by (rule within_socket_path)
  moreover have "within (own_path h name) {} (base_dirs h) w1 w'"
  proof (cases x)
    case (Inr p)
    from own_pathI [OF Pair [unfolded Inr]] assms Pair Inr show ?thesis
      by (auto simp: connect_session_def within_remove split: sum.splits if_splits)
  qed (use assms Pair in \<open>simp add: connect_session_def\<close>)
  ultimately show ?thesis by (rule within_trans)
qed

lemma within_alive: "session_alive h name w = (b, w') \<Longrightarrow> within (own_path h name) {} (base_dirs h) w w'"
  by (cases "connect_session h name w") (auto simp: session_alive_def dest: within_connect split: sum.splits)

lemma within_bind: "p \<in> P \<Longrightarrow> unix_bind h p w = (r, w') \<Longrightarrow> within P L D w w'"
  by (auto simp: unix_bind_def within_def world_ok_def less_Suc_eq split: option.splits if_splits)

abbreviation within_own :: "host \<Rightarrow> string \<Rightarrow> world \<Rightarrow> world \<Rightarrow> bool" where
  "within_own h name \<equiv> within (own_path h name) (own_log h name) (own_made h name)"

lemma base_own: "within (own_path h name) {} (base_dirs h) w w' \<Longrightarrow> within_own h name w w'"
  by (erule within_mono) (auto simp: own_made_def)

lemma within_claim:
  assumes "claim_path h name w = (r, w')"
  shows "within_own h name w w'"
proof (cases "socket_path h name w")
  case (Pair x w1)
  have 1: "within_own h name w w1" using base_own [OF within_socket_path [OF Pair]] .
  show ?thesis
  proof (cases x)
    case (Inl e)
    with assms Pair 1 show ?thesis by (simp add: claim_path_def)
  next
    case (Inr p)
    note p = own_pathI [OF Pair [unfolded Inr]]
    obtain e w2 where m: "make_parent h p w1 = (e, w2)" by (cases "make_parent h p w1")
    have "dirs w2 \<subseteq> dirs w1 \<union> own_made h name" using make_parent_fields(6) [OF m] p by (auto simp: own_made_def)
    with make_parent_fields [OF m] have 2: "within_own h name w1 w2" by (intro within_dirs)
    obtain b w3 where b: "unix_bind h p (remove_file p w2) = (b, w3)" by (cases "unix_bind h p (remove_file p w2)")
    note 2
    also have "within_own h name w2 (remove_file p w2)" using p by (rule within_remove)
    also have "within_own h name (remove_file p w2) w3" using p b by (rule within_bind)
    finally have 3: "within_own h name w1 w3" .
    have "w' = w2 \<or> w' = w3 \<or> w' = act (Chmod p 384) w3"
      using assms Pair Inr m b
      by (auto simp: claim_path_def make_parent_def [symmetric] split: option.splits sum.splits)
    with 1 2 3 show ?thesis by (auto intro: within_trans)
  qed
qed

lemma within_begins: "p \<in> own_path h name \<Longrightarrow> within_own h name w (server_begins h name cmd p i w)"
proof -
  assume "p \<in> own_path h name"
  then have "derive_server_log_path p \<in> own_log h name" by (simp add: own_log_def)
  then have "within_own h name (w\<lparr>commands := (commands w)(i \<mapsto> cmd)\<rparr>) (server_begins h name cmd p i w)"
    unfolding server_begins_def by (rule within_log)
  moreover have "within_own h name w (w\<lparr>commands := (commands w)(i \<mapsto> cmd)\<rparr>)" by (rule within_dirs) simp_all
  ultimately show ?thesis by (blast intro: within_trans)
qed

lemma within_unclaim:
  assumes "claim_path h name w1 = (Inr (p, i), w2)"
  shows "within_own h name w1 (w2\<lparr>listening := removeAll i (listening w2)\<rparr>)"
  unfolding within_def
proof
  note f = claim_path_ok [OF assms] and k = within_claim [OF assms]
  assume ok: "world_ok w1"
  with k have "world_ok w2" by (simp add: within_def)
  moreover from ok f have "removeAll i (listening w2) = listening w1"
    by (auto simp: world_ok_def intro: removeAll_id)
  ultimately show "world_ok (w2\<lparr>listening := removeAll i (listening w2)\<rparr>) \<and>
      next_id w1 \<le> next_id (w2\<lparr>listening := removeAll i (listening w2)\<rparr>) \<and>
      set (listening w1) \<subseteq> set (listening (w2\<lparr>listening := removeAll i (listening w2)\<rparr>)) \<and>
      (\<forall>q. q \<notin> own_path h name \<longrightarrow> fs (w2\<lparr>listening := removeAll i (listening w2)\<rparr>) q = fs w1 q \<or>
        q \<in> own_log h name \<and> log_grown (fs w1 q) (fs (w2\<lparr>listening := removeAll i (listening w2)\<rparr>) q)) \<and>
      dirs w1 \<subseteq> dirs (w2\<lparr>listening := removeAll i (listening w2)\<rparr>) \<and>
      dirs (w2\<lparr>listening := removeAll i (listening w2)\<rparr>) \<subseteq> dirs w1 \<union> own_made h name"
    using ok f k by (auto simp: world_ok_def within_def)
qed

lemma within_create:
  assumes "create_session h name cmd l w = (r, w')"
  shows "within_own h name w w'"
proof (cases "session_alive h name w")
  case (Pair b w1)
  have 1: "within_own h name w w1" using base_own [OF within_alive [OF Pair]] .
  obtain c w2 where c: "claim_path h name w1 = (c, w2)" by (cases "claim_path h name w1")
  have 2: "within_own h name w1 w2" using c by (rule within_claim)
  have p: "p \<in> own_path h name" if "c = Inr (p, i)" for p i
    using claim_path_ok [OF c [unfolded that]] socket_path_world [of h name w1]
    by (simp add: own_path_def)
  have k: "within_own h name w1 (w2\<lparr>listening := removeAll i (listening w2)\<rparr>)" if "c = Inr (p, i)" for p i
    using within_unclaim [OF c [unfolded that]] .
  have g: "within_own h name w1 (server_begins h name cmd p i w2)" if "c = Inr (p, i)" for p i
    using 2 within_begins [OF p [OF that]] by (rule within_trans)
  have d: "within_own h name w1 (remove_file p (server_begins h name cmd p i w2))" if "c = Inr (p, i)" for p i
    using g [OF that] within_remove [OF p [OF that]] by (rule within_trans)
  have "w' = w1 \<or> w' = w2 \<or> (\<exists>p i. c = Inr (p, i) \<and>
      (w' = w2\<lparr>listening := removeAll i (listening w2)\<rparr> \<or> w' = server_begins h name cmd p i w2 \<or>
       w' = remove_file p (server_begins h name cmd p i w2)))"
    using assms Pair c
    by (auto simp: create_session_def Let_def split: option.splits bool.splits sum.splits launch.splits)
  with 1 2 k g d show ?thesis by (auto intro: within_trans)
qed

lemma within_attach_command:
  "attach_command o' name os w = (r, w') \<Longrightarrow> within (own_path (host_of o') name) {} (base_dirs (host_of o')) w w'"
  by (cases "connect_session (host_of o') name w")
    (auto simp: attach_command_def dest: within_connect split: sum.splits)

lemma within_create_attach:
  assumes "create_attach_command o' name cmd os w = (r, w')"
  shows "within_own (host_of o') name w w'"
proof (cases "create_session (host_of o') name cmd (launched o') w")
  case (Pair x w1)
  from within_create [OF Pair] assms Pair show ?thesis
    by (auto simp: create_attach_command_def dest: within_attach_command [THEN base_own] split: option.splits sum.splits
        intro: within_trans)
qed

lemma within_attach_or_create:
  assumes "attach_or_create_command o' name cmd os w = (r, w')"
  shows "within_own (host_of o') name w w'"
proof (cases "session_alive (host_of o') name w")
  case (Pair b w1)
  from base_own [OF within_alive [OF Pair]] assms Pair show ?thesis
    by (auto simp: attach_or_create_command_def split: option.splits bool.splits
        dest: within_attach_command [THEN base_own] within_create_attach intro: within_trans)
qed

text \<open>What a command may change: the files that are its own, the log it may add to, the directories it may make.\<close>

fun own_files :: "host \<Rightarrow> command \<Rightarrow> string set" where
  "own_files h ShowVersion = {}"
| "own_files h ListSessions = {}"
| "own_files h (RunCreate n cmd os) = own_path h n"
| "own_files h (RunCreateAttach n cmd os) = own_path h n"
| "own_files h (RunAttach n os) = own_path h n"
| "own_files h (RunAttachOrCreate n cmd os) = own_path h n"
| "own_files h (RunDump n nb nl) = own_path h n"
| "own_files h (RunSendKeys n keys literal) = own_path h n"

fun own_logs :: "host \<Rightarrow> command \<Rightarrow> string set" where
  "own_logs h (RunCreate n cmd os) = own_log h n"
| "own_logs h (RunCreateAttach n cmd os) = own_log h n"
| "own_logs h (RunAttachOrCreate n cmd os) = own_log h n"
| "own_logs h cmd = {}"

fun may_make :: "host \<Rightarrow> command \<Rightarrow> string set" where
  "may_make h ShowVersion = {}"
| "may_make h (RunCreate n cmd os) = own_made h n"
| "may_make h (RunCreateAttach n cmd os) = own_made h n"
| "may_make h (RunAttachOrCreate n cmd os) = own_made h n"
| "may_make h cmd = base_dirs h"

lemma run_command_within:
  assumes "run_command o' cmd w = (r, w')"
  shows "within (own_files (host_of o') cmd) (own_logs (host_of o') cmd) (may_make (host_of o') cmd) w w'"
proof -
  have dir: "within P {} (base_dirs (host_of o')) w (snd (socket_base_dir (host_of o') w))" for P
    using first_dir_fields [of "host_of o'" "candidates (host_of o')" w]
      first_dir_dirs [of w "host_of o'" "candidates (host_of o')"]
    by (intro within_dirs) (auto simp: socket_base_dir_def base_dirs_def split: sum.splits if_splits)
  show ?thesis
    using assms dir
    by (cases cmd)
      (auto simp: list_command_def create_command_def dump_command_def send_keys_command_def
        split: prod.splits option.splits sum.splits
        dest: within_create within_attach_command within_create_attach within_attach_or_create within_connect)
qed

subsection \<open>Properties\<close>

text \<open>C28: Whatever it is told to do, a run of \<open>lich\<close> keeps the shared world well-formed (every socket file and every
  listener is of a server once started, no listener twice, no directory where a file is), stops no server, and
  changes no file but the socket of the session it is about and, if it may create that session, the log of its
  server, which is only made or added to and never was a socket. The directories it makes are those
  above the candidates for the base directory and, when creating, those above the socket. \<open>-v\<close> and every
  rejected command line change nothing at all.\<close>

theorem run_touches_own_path:
  assumes "lich o' args w = (r, w')" and "world_ok w"
  shows "world_ok w' \<and> set (listening w) \<subseteq> set (listening w') \<and> next_id w \<le> next_id w' \<and> dirs w \<subseteq> dirs w' \<and>
    (case real_main (envvar (host_of o')) (on_terminal o') args of
       Inl e \<Rightarrow> w' = w
     | Inr ShowVersion \<Rightarrow> w' = w
     | Inr cmd \<Rightarrow>
         {q. fs w' q \<noteq> fs w q} \<subseteq> own_files (host_of o') cmd \<union> {q \<in> own_logs (host_of o') cmd. log_grown (fs w q) (fs w' q)} \<and>
         dirs w' - dirs w \<subseteq> may_make (host_of o') cmd)"
proof (cases "real_main (envvar (host_of o')) (on_terminal o') args")
  case (Inl e)
  with assms show ?thesis by (simp add: lich_def)
next
  case (Inr cmd)
  with assms(1) have "run_command o' cmd w = (r, w')" by (simp add: lich_def)
  from run_command_within [OF this] assms(2) have k: "world_ok w' \<and> next_id w \<le> next_id w' \<and>
      set (listening w) \<subseteq> set (listening w') \<and> dirs w \<subseteq> dirs w' \<and>
      {q. fs w' q \<noteq> fs w q} \<subseteq> own_files (host_of o') cmd \<union> {q \<in> own_logs (host_of o') cmd. log_grown (fs w q) (fs w' q)} \<and>
      dirs w' - dirs w \<subseteq> may_make (host_of o') cmd"
    by (auto simp: within_def)
  have "w' = w" if "cmd = ShowVersion" using \<open>run_command o' cmd w = (r, w')\<close> that by simp
  with k Inr show ?thesis by (cases cmd) simp_all
qed

definition demo_consts :: termios_consts where
  "demo_consts = \<lparr>IGNBRK = 1, BRKINT = 2, PARMRK = 8, ISTRIP = 32, INLCR = 64, IGNCR = 128, ICRNL = 256, IXON = 1024,
     IXOFF = 4096, OPOST = 1, ECHO = 8, ECHONL = 64, ICANON = 2, ISIG = 1, IEXTEN = 32768, CSIZE = 48, PARENB = 256,
     CS8 = 48, VMIN = 6, VTIME = 5\<rparr>"

definition demo_outside :: outside where
  "demo_outside = \<lparr>host_of = demo_host, stream_to = (\<lambda>i. conn demo_attach), console = demo_io\<lparr>stdout_tx := [Count 1]\<rparr>,
     on_terminal = True, term_attr = None, term_consts = demo_consts, first_size = None, rounds_of = [],
     launched = Forked [Bytes []], entries = (\<lambda>d. Inr [])\<rparr>"

definition attach_opts :: "string \<Rightarrow> opts" where
  "attach_opts name = initial_opts\<lparr>opt_action := Some Attach, opt_name := Some name\<rparr>"

lemma attach_args:
  "\<not> prefix ''-'' name \<Longrightarrow> real_main env True [''-a'', name] = Inr (RunAttach name (attach_opts name))"
  by (simp add: real_main_def parse_args_def parse_option_def check_opts_def default_piped_def dispatch_def
      attach_opts_def initial_opts_def)

lemma create_args:
  "\<not> prefix ''-'' name \<Longrightarrow> real_main env True [''-n'', name, c] =
     Inr (RunCreate name [c] (initial_opts\<lparr>opt_action := Some Create, opt_name := Some name, opt_rest := [c]\<rparr>))"
  by (simp add: real_main_def parse_args_def parse_option_def check_opts_def default_piped_def dispatch_def
      initial_opts_def command_args_def)

lemma demo_created: "lich demo_outside [''-n'', ''a'', ''sh''] demo_world = (Output [] (Inr ()), created_demo)"
  using created_demo_ok create_args [of "''a''" "envvar demo_host" "''sh''"]
  by (simp add: lich_def demo_outside_def create_command_def)

lemma demo_own_path: "own_path demo_host ''a'' = {''/h/.lich/a@h''}"
  using demo_paths(1) by (auto simp: own_path_def)

lemma demo_log_path: "derive_server_log_path ''/h/.lich/a@h'' = ''/h/.lich/a@h.log''"
  using last_component [of "''a@h''" "''/h/.lich''"] by (simp add: path_join_def derive_server_log_path_def)

theorem run_touches_own_path_witness:
  "lich demo_outside [''-n'', ''a'', ''sh''] demo_world = (Output [] (Inr ()), created_demo) \<and> world_ok created_demo \<and>
   {q. fs created_demo q \<noteq> fs demo_world q} \<subseteq> {''/h/.lich/a@h'', ''/h/.lich/a@h.log''}"
proof -
  have "world_ok demo_world" by (simp add: world_ok_def demo_world_def)
  from run_touches_own_path [OF demo_created this] create_args [of "''a''" "envvar demo_host" "''sh''"] demo_created
  show ?thesis
    by (auto simp: demo_outside_def demo_own_path own_log_def demo_log_path)
qed

subsection \<open>Finding a session or making it\<close>

lemma alive_live:
  assumes "fst (socket_path h name w) = Inr p" "fs w p = Some (SocketFile i)" "i \<in> set (listening w)"
    "connect_err h p = None"
  shows "\<exists>w1. connect_session h name w = (Inr i, w1) \<and> fs w1 = fs w \<and> listening w1 = listening w \<and>
    next_id w1 = next_id w \<and> commands w1 = commands w"
proof (cases "socket_path h name w")
  case (Pair x w1)
  with assms socket_path_cases [OF Pair] show ?thesis
    by (auto simp: connect_session_def unix_connect_def)
qed

definition no_server :: "world \<Rightarrow> string \<Rightarrow> bool" where
  "no_server w p \<longleftrightarrow> (case fs w p of None \<Rightarrow> True | Some (SocketFile j) \<Rightarrow> j \<notin> set (listening w) | Some f \<Rightarrow> False)"

lemma alive_free:
  assumes "fst (socket_path h name w) = Inr p" "no_server w p" "connect_err h p = None"
  shows "\<exists>w1. session_alive h name w = (Some False, w1) \<and> fs w1 p = None \<and> next_id w1 = next_id w \<and>
    listening w1 = listening w \<and> (p \<in> dirs w1 \<longleftrightarrow> p \<in> dirs w)"
proof (cases "socket_path h name w")
  case (Pair x w1)
  with assms(1) have "x = Inr p" by simp
  with Pair assms(2,3) socket_path_cases [OF Pair] show ?thesis
    by (cases "fs w p")
      (auto simp: session_alive_def connect_session_def unix_connect_def no_server_def remove_file_def split: node.splits)
qed

lemma claim_free:
  assumes "fst (socket_path h name w) = Inr p" "fs w p = None" "p \<notin> dirs w" "bind_err h p = None"
    "\<forall>d. path_parent p = Some d \<longrightarrow> mkdir_err h d = None"
  shows "\<exists>i w'. claim_path h name w = (Inr (p, i), w')"
proof (cases "socket_path h name w")
  case (Pair x w1)
  then have x: "x = Inr p" using assms(1) by simp
  obtain e w2 where m: "make_parent h p w1 = (e, w2)" by (cases "make_parent h p w1")
  have "e = None"
    using m assms(5) by (auto simp: make_parent_def create_dir_all_cases split: option.splits)
  moreover have "p \<notin> dirs w2" "fs w2 p = None"
    using make_parent_fields(1,7) [OF m] socket_path_cases(1,8) [OF Pair] x assms(2,3) by simp_all
  ultimately show ?thesis
    using Pair x m assms(4) by (simp add: claim_path_def make_parent_def [symmetric] unix_bind_def remove_file_def)
qed

lemma create_free:
  assumes "fst (socket_path h name w) = Inr p" "no_server w p" "p \<notin> dirs w" "connect_err h p = None" "bind_err h p = None"
    "\<forall>d. path_parent p = Some d \<longrightarrow> mkdir_err h d = None" "read_startup_status rs = Some (Inr ())"
  shows "\<exists>w'. create_session h name cmd (Forked rs) w = (Some (Inr ()), w') \<and> fs w' p = Some (SocketFile (next_id w)) \<and>
    next_id w \<in> set (listening w') \<and> commands w' (next_id w) = Some cmd"
proof -
  obtain w1 where w1: "session_alive h name w = (Some False, w1)" "fs w1 p = None" "next_id w1 = next_id w" "p \<notin> dirs w1"
    using alive_free [OF assms(1,2,4)] assms(3) by blast
  have p: "fst (socket_path h name w1) = Inr p" using assms(1) socket_path_world [of h name w1 w] by simp
  obtain i w2 where c: "claim_path h name w1 = (Inr (p, i), w2)"
    using claim_free [OF p w1(2,4) assms(5,6)] by blast
  from claim_path_ok [OF c] w1 c assms(7) show ?thesis by (auto simp: create_session_def Let_def)
qed

text \<open>C9: \<open>lich -A\<close> attaches: if the session's server lives, to that server, with no file and no listener changed;
  if nothing listens under the name (no file, or the socket of a dead server) and the program can be
  started, to the new server it has started for the command given, which then is the one the name leads to.\<close>

theorem attach_or_create_attaches:
  assumes "fst (socket_path (host_of o') name w) = Inr p" and "connect_err (host_of o') p = None"
    and "\<not> no_server w p \<longrightarrow> fs w p = Some (SocketFile j) \<and>
      recv_packet_blocking (peer (host_of o') j) = Some (Inr pkt, s) \<and> mtyp pkt = MSG_PID"
    and "no_server w p \<longrightarrow> launched o' = Forked rs \<and> read_startup_status rs = Some (Inr ()) \<and>
      p \<notin> dirs w \<and> bind_err (host_of o') p = None \<and> (\<forall>d. path_parent p = Some d \<longrightarrow> mkdir_err (host_of o') d = None)"
  shows "\<exists>i w'. run_command o' (RunAttachOrCreate name cmd os) w =
      (AttachRun (attach_session name True os (envvar (host_of o')) (first_size o') (term_consts o')
        (on_terminal o') (term_attr o') (rounds_of o') ((console o')\<lparr>conn := stream_to o' i\<rparr>)), w') \<and>
    i = (if no_server w p then next_id w else j) \<and>
    fs w' p = Some (SocketFile i) \<and> i \<in> set (listening w') \<and>
    (no_server w p \<longrightarrow> commands w' i = Some cmd) \<and>
    (\<not> no_server w p \<longrightarrow> fs w' = fs w \<and> listening w' = listening w)"
proof (cases "no_server w p")
  case False
  let ?h = "host_of o'"
  from False assms(3) have j: "fs w p = Some (SocketFile j)" "j \<in> set (listening w)"
    by (auto simp: no_server_def)
  from alive_live [OF assms(1) j assms(2)] obtain w1 where
    c: "connect_session ?h name w = (Inr j, w1)" "fs w1 = fs w" "listening w1 = listening w" by blast
  from c False assms(3) have a: "session_alive ?h name w = (Some True, w1)" by (simp add: session_alive_def)
  have "fst (socket_path ?h name w1) = Inr p" using assms(1) socket_path_world [of ?h name w1 w] by simp
  from alive_live [OF this _ _ assms(2)] c j obtain w2 where
    "connect_session ?h name w1 = (Inr j, w2)" "fs w2 = fs w" "listening w2 = listening w" by auto
  with a False j show ?thesis by (simp add: attach_or_create_command_def attach_command_def)
next
  case True
  let ?h = "host_of o'"
  from True assms(4) have l: "launched o' = Forked rs" "read_startup_status rs = Some (Inr ())"
    "p \<notin> dirs w" "bind_err ?h p = None" "\<forall>d. path_parent p = Some d \<longrightarrow> mkdir_err ?h d = None" by auto
  obtain w1 where w1: "session_alive ?h name w = (Some False, w1)" "fs w1 p = None" "next_id w1 = next_id w" "p \<notin> dirs w1"
    using alive_free [OF assms(1) True assms(2)] l(3) by blast
  have p: "fst (socket_path ?h name v) = Inr p" for v using assms(1) socket_path_world [of ?h name v w] by simp
  have "no_server w1 p" using w1(2) by (simp add: no_server_def)
  from create_free [OF p this w1(4) assms(2) l(4,5,2)] w1(3) obtain w2 where
    w2: "create_session ?h name cmd (Forked rs) w1 = (Some (Inr ()), w2)" "fs w2 p = Some (SocketFile (next_id w))"
    "next_id w \<in> set (listening w2)" "commands w2 (next_id w) = Some cmd" by auto
  from alive_live [OF p w2(2,3) assms(2)] obtain w3 where
    "connect_session ?h name w2 = (Inr (next_id w), w3)" "fs w3 = fs w2" "listening w3 = listening w2" "commands w3 = commands w2" by blast
  with w1(1) w2 l(1) True show ?thesis
    by (simp add: attach_or_create_command_def create_attach_command_def attach_command_def)
qed

theorem attach_or_create_attaches_witness:
  "\<exists>w'. snd (run_command demo_outside (RunAttachOrCreate ''a'' [''sh''] initial_opts) demo_world) = w' \<and>
     fs w' ''/h/.lich/a@h'' = Some (SocketFile 0) \<and> 0 \<in> set (listening w')"
proof -
  have "no_server demo_world ''/h/.lich/a@h''" by (simp add: no_server_def demo_world_def)
  moreover have "read_startup_status [Bytes []] = Some (Inr ())"
    using startup_loop_pieces [of "[]" "[]"] by (simp add: read_startup_status_def)
  moreover have "fst (socket_path (host_of demo_outside) ''a'' demo_world) = Inr ''/h/.lich/a@h''"
    using demo_paths(1) by (simp add: demo_outside_def)
  ultimately show ?thesis
    using attach_or_create_attaches [of demo_outside "''a''" demo_world "''/h/.lich/a@h''" 0 _ _ "[Bytes []]" "[''sh'']" initial_opts]
    by (auto simp: demo_outside_def demo_host_def) (auto simp: demo_world_def)
qed

end
