(* ===== verification/ProcTitle.thy ===== *)
theory ProcTitle
  imports Cli
begin

text \<open>
  \<open>shorten_server_proctitle\<close> and \<open>proc_self_argv_region\<close> of \<open>main.rs\<close> (the Linux versions): how
  the server erases the command line it was started with. The text of \<open>/proc/self/stat\<close> is an
  argument, the argument region of the process is the list of its bytes, and the two \<open>prctl\<close> calls
  are reported as the end of the region and the name they set.
\<close>

subsection \<open>Finding the region\<close>

definition is_ascii_space :: "char \<Rightarrow> bool" where
  "is_ascii_space c \<longleftrightarrow> (let n = of_char c :: nat in n = 32 \<or> n = 9 \<or> n = 10 \<or> n = 12 \<or> n = 13)"

fun split_on :: "(char \<Rightarrow> bool) \<Rightarrow> string \<Rightarrow> string list" where
  "split_on f [] = [[]]"
| "split_on f (c # cs) =
     (if f c then [] # split_on f cs
      else case split_on f cs of [] \<Rightarrow> [[c]] | w # ws \<Rightarrow> (c # w) # ws)"

definition split_ascii_whitespace :: "string \<Rightarrow> string list" where
  "split_ascii_whitespace s = filter (\<lambda>w. w \<noteq> []) (split_on is_ascii_space s)"

text \<open>What follows the last closing parenthesis (\<open>rfind\<close>), if there is one.\<close>

definition after_last_paren :: "string \<Rightarrow> string option" where
  "after_last_paren s =
     (if CHR '')'' \<in> set s then Some (rev (takeWhile (\<lambda>c. c \<noteq> CHR '')'') (rev s))) else None)"

definition field_at :: "string list \<Rightarrow> nat \<Rightarrow> nat option" where
  "field_at flds i = (if i < length flds then parse_uint 64 (flds ! i) else None)"

definition proc_self_argv_region :: "string option \<Rightarrow> (nat \<times> nat) option" where
  "proc_self_argv_region stat =
     (case stat of
        None \<Rightarrow> None
      | Some s \<Rightarrow>
          (case after_last_paren s of
             None \<Rightarrow> None
           | Some rest \<Rightarrow>
               (let flds = split_ascii_whitespace rest
                in case field_at flds 45 of
                     None \<Rightarrow> None
                   | Some a \<Rightarrow>
                       (case field_at flds 46 of
                          None \<Rightarrow> None
                        | Some b \<Rightarrow> if b > a then Some (a, b) else None))))"

subsection \<open>Overwriting it\<close>

text \<open>The region after the call, the end address passed to \<open>PR_SET_MM_ARG_END\<close>, the name set.\<close>

record proctitle =
  region :: bytes
  arg_end :: "nat option"
  comm :: "string option"

definition overwrite :: "bytes \<Rightarrow> bytes \<Rightarrow> bytes" where
  "overwrite new old = new @ drop (length new) old"

definition shorten_server_proctitle :: "string \<Rightarrow> (nat \<times> nat) option \<Rightarrow> proctitle \<Rightarrow> proctitle" where
  "shorten_server_proctitle session_name argv p =
     (case argv of
        None \<Rightarrow> p
      | Some (arg_start, arg_stop) \<Rightarrow>
          (let total_len = arg_stop - arg_start
           in if total_len < 2 then p
              else
                let title = as_bytes (''lich-server['' @ session_name @ '']'');
                    write_len = min (length title) (total_len - 1);
                    zeroed = overwrite (replicate total_len 0) (region p)
                in p\<lparr>region := overwrite (take write_len title) zeroed,
                     arg_end := Some (arg_start + write_len + 1),
                     comm := Some ''lich-server''\<rparr>))"

subsection \<open>Splitting\<close>

lemma split_on_word: "list_all (\<lambda>c. \<not> f c) w \<Longrightarrow> f c \<Longrightarrow> split_on f (w @ c # s) = w # split_on f s"
  by (induction w) auto

lemma split_on_not_Nil [simp]: "split_on f s \<noteq> []"
  by (cases s) (auto split: list.splits)

lemma split_spaced:
  assumes "\<forall>w \<in> set flds. w \<noteq> [] \<and> list_all (\<lambda>c. \<not> is_ascii_space c) w"
  shows "split_ascii_whitespace (concat (map (\<lambda>w. CHR '' '' # w) flds) @ [CHR 0x0A]) = flds"
proof -
  have nl: "is_ascii_space (CHR 0x0A)" "is_ascii_space (CHR '' '')"
    by (simp_all add: is_ascii_space_def)
  have "filter (\<lambda>w. w \<noteq> []) (split_on is_ascii_space (w @ concat (map (\<lambda>w. CHR '' '' # w) flds) @ [CHR 0x0A])) =
      filter (\<lambda>w. w \<noteq> []) (w # flds)"
    if "list_all (\<lambda>c. \<not> is_ascii_space c) w" for w
    using assms that
  proof (induction flds arbitrary: w)
    case Nil
    then show ?case using nl by (simp add: split_on_word)
  next
    case (Cons v flds)
    then show ?case
      using nl split_on_word [of is_ascii_space w "CHR '' ''" "v @ concat (map (\<lambda>w. CHR '' '' # w) flds) @ [CHR 0x0A]"]
      by simp
  qed
  from this [of "[]"] assms show ?thesis
    by (simp add: split_ascii_whitespace_def filter_id_conv)
qed

lemma after_last_paren_unique:
  "CHR '')'' \<notin> set rest \<Longrightarrow> after_last_paren (pre @ CHR '')'' # rest) = Some rest"
proof -
  assume "CHR '')'' \<notin> set rest"
  then have "takeWhile (\<lambda>c. c \<noteq> CHR '')'') (rev rest @ CHR '')'' # rev pre) = rev rest"
    by (subst takeWhile_append2) auto
  then show ?thesis by (simp add: after_last_paren_def)
qed

lemma parse_show_nat: "n < 2 ^ 64 \<Longrightarrow> parse_uint 64 (show_nat n) = Some n"
  using show_nat_digits [of n] unfolding parse_uint_iff by metis

text \<open>The argument region is read from the right fields of \<open>/proc/self/stat\<close>: for every process name,
  also one with spaces and closing parentheses in it, and every line that follows the format of
  \<open>proc(5)\<close>, the result is the pair of fields 48 and 49, and nothing if that region is empty.\<close>

lemma argv_region_exact:
  assumes "stat = pre @ CHR '')'' # concat (map (\<lambda>w. CHR '' '' # w) flds) @ [CHR 0x0A]"
    and "\<forall>w \<in> set flds. w \<noteq> [] \<and> list_all (\<lambda>c. \<not> is_ascii_space c \<and> c \<noteq> CHR '')'') w"
    and "46 < length flds" and "flds ! 45 = show_nat a" and "flds ! 46 = show_nat b"
    and "a < 2 ^ 64" and "b < 2 ^ 64"
  shows "proc_self_argv_region (Some stat) = (if a < b then Some (a, b) else None)"
proof -
  let ?rest = "concat (map (\<lambda>w. CHR '' '' # w) flds) @ [CHR 0x0A]"
  have "CHR '')'' \<notin> set ?rest"
    using assms(2) by (auto simp: list_all_iff)
  then have p: "after_last_paren stat = Some ?rest"
    unfolding assms(1) by (rule after_last_paren_unique)
  have s: "split_ascii_whitespace ?rest = flds"
    by (rule split_spaced) (use assms(2) in \<open>auto simp: list_all_iff\<close>)
  have f: "field_at flds 45 = Some a" "field_at flds 46 = Some b"
    using assms(3-7) parse_show_nat by (simp_all add: field_at_def)
  show ?thesis using f unfolding proc_self_argv_region_def by (simp add: p s)
qed

lemma number_fields:
  "show_nat n \<noteq> [] \<and> list_all (\<lambda>c. \<not> is_ascii_space c \<and> c \<noteq> CHR '')'') (show_nat n)"
  "list_all (\<lambda>c. \<not> is_ascii_space c \<and> c \<noteq> CHR '')'') ''1''"
  "list_all (\<lambda>c. \<not> is_ascii_space c \<and> c \<noteq> CHR '')'') ''0''"
proof -
  have d: "list_all (\<lambda>c. \<not> is_ascii_space c \<and> c \<noteq> CHR '')'') w" if "list_all is_digit w" for w
    using that by (auto simp: list_all_iff is_ascii_space_def is_digit_def digit_val_def Let_def)
  then show "show_nat n \<noteq> [] \<and> list_all (\<lambda>c. \<not> is_ascii_space c \<and> c \<noteq> CHR '')'') (show_nat n)"
    using show_nat_digits [of n] by blast
  show "list_all (\<lambda>c. \<not> is_ascii_space c \<and> c \<noteq> CHR '')'') ''1''"
    "list_all (\<lambda>c. \<not> is_ascii_space c \<and> c \<noteq> CHR '')'') ''0''"
    by (rule d; simp add: is_digit_def digit_val_def)+
qed

lemma demo_argv: "\<exists>stat. proc_self_argv_region (Some stat) = Some (100, 160)"
proof -
  have "\<forall>w \<in> set (replicate 45 ''1'' @ [show_nat 100, show_nat 160]). w \<noteq> [] \<and> list_all (\<lambda>c. \<not> is_ascii_space c \<and> c \<noteq> CHR '')'') w"
    using number_fields by auto
  from argv_region_exact [OF refl this, of 100 160 "[]"] show ?thesis by (auto simp: nth_append)
qed

subsection \<open>Properties\<close>

text \<open>C31: The original command line is gone: once the region has been found (and holds at least two bytes),
  what \<open>/proc/<pid>/cmdline\<close> shows depends on the session name only, whatever was in the region; it
  is the title, cut to fit, padded with zero bytes of which at least one ends it; no byte outside
  the region is written, and the end reported to the kernel lies within it.\<close>

theorem original_argv_erased:
  assumes "proc_self_argv_region stat = Some (a, b)" and "a + 2 \<le> b"
    and "length (region p) = b - a" and "length (region q) = b - a"
  shows "region (shorten_server_proctitle name (Some (a, b)) p) = region (shorten_server_proctitle name (Some (a, b)) q) \<and>
    (\<exists>title zeros. region (shorten_server_proctitle name (Some (a, b)) p) = title @ replicate (Suc zeros) 0 \<and>
       prefix title (as_bytes (''lich-server['' @ name @ '']'')) \<and>
       length (region (shorten_server_proctitle name (Some (a, b)) p)) = b - a \<and>
       arg_end (shorten_server_proctitle name (Some (a, b)) p) = Some (a + length title + 1) \<and>
       a + length title + 1 \<le> b)"
proof -
  let ?t = "as_bytes (''lich-server['' @ name @ '']'')"
  let ?n = "min (length ?t) (b - a - 1)"
  have r: "region (shorten_server_proctitle name (Some (a, b)) x) = take ?n ?t @ replicate (b - a - ?n) 0"
    if "length (region x) = b - a" for x
    using that assms(2) by (simp add: shorten_server_proctitle_def overwrite_def Let_def min_def)
  have "\<not> b - a < 2" using assms(2) by simp
  then have e: "arg_end (shorten_server_proctitle name (Some (a, b)) p) = Some (a + ?n + 1)"
    by (simp add: shorten_server_proctitle_def Let_def)
  obtain n where n: "n = ?n" by blast
  have "n \<le> b - a - 1" "n \<le> length ?t" unfolding n by (rule min.cobounded2, rule min.cobounded1)
  then have k: "b - a - n = Suc (b - a - n - 1)" "length (take n ?t) = n" "a + n + 1 \<le> b" "n + Suc (b - a - n - 1) = b - a"
    using assms(2) by simp_all
  have "region (shorten_server_proctitle name (Some (a, b)) p) = take n ?t @ replicate (Suc (b - a - n - 1)) 0"
    using r [OF assms(3)] k(1) unfolding n [symmetric] by simp
  moreover have "region (shorten_server_proctitle name (Some (a, b)) p) =
      region (shorten_server_proctitle name (Some (a, b)) q)"
    using r [OF assms(3)] r [OF assms(4)] by simp
  moreover have "length (take n ?t @ replicate (Suc (b - a - n - 1)) 0) = b - a"
    using k(2,4) by (simp only: length_append length_replicate)
  ultimately show ?thesis
    using e k unfolding n [symmetric]
    by (intro conjI exI [of _ "take n ?t"] exI [of _ "b - a - n - 1"]) (simp_all only: take_is_prefix)
qed

theorem original_argv_erased_witness:
  "region (shorten_server_proctitle ''s'' (Some (100, 160)) \<lparr>region = replicate 60 65, arg_end = None, comm = None\<rparr>) =
   region (shorten_server_proctitle ''s'' (Some (100, 160)) \<lparr>region = replicate 60 66, arg_end = None, comm = None\<rparr>)"
proof -
  obtain stat where "proc_self_argv_region (Some stat) = Some (100, 160)"
    using demo_argv by blast
  from original_argv_erased [OF this, of "\<lparr>region = replicate 60 65, arg_end = None, comm = None\<rparr>"
      "\<lparr>region = replicate 60 66, arg_end = None, comm = None\<rparr>" "''s''"]
  show ?thesis by simp
qed

end
