(* ===== verification/Spec2Isabelle.thy ===== *)
theory Spec2Isabelle
  imports Signals Live Delivery Startup Program ProcTitle
begin

text \<open>
  A verification development for lich (\<open>src/src/main.rs\<close>), the Rust terminal session manager derived from
  abduco. This header says what the program's parts are, which theory models which part, what the
  theorems show, and what is left out.

  \<^bold>\<open>The program.\<close> \<open>lich -n name cmd\<close> forks a server that runs \<open>cmd\<close> on a pty and listens on a Unix
  socket named after the session; \<open>lich -a\<close> relays between the user's terminal and that socket,
  \<open>-c\<close> and \<open>-A\<close> combine the two, \<open>-d\<close> prints the server's scrollback, \<open>-K\<close> types keys, no name lists the
  sessions. Processes meet in four places only: the socket (packets), the startup pipe (whether the
  command could be executed), the file system (sockets and logs), and signals. The server is one
  loop over passes: signal flag, accept, pty output, \<open>waitpid\<close>, client input, exit packets, flushing
  and closing. It never blocks, except in the greeting it writes to a new connection; but its loops over
  the pty and over a client's input have no limit.

  \<^bold>\<open>Theories and code.\<close> In the order of their dependency:
  \<^item> \<open>Prelude\<close>: machine integers, bytes of strings, native byte order, \<open>chunks\<close>, decimal printing; the
    collections \<open>wire_consts\<close>, \<open>frame_simps\<close>, \<open>keeps\<close>. \<open>Kernel\<close>: \<open>read\<close> and \<open>write\<close> as scripts of answers, the
    library's \<open>read_exact\<close> and \<open>write_all\<close>, the source's \<open>fd_write_all\<close>.
  \<^item> \<open>Handlers\<close>: the statics \<open>WINCH_PENDING\<close>, \<open>SHUTDOWN_REQUESTED\<close>, \<open>handle_sigwinch\<close>,
    \<open>handle_shutdown_signal\<close>, and the calls of \<open>signal\<close> in \<open>create_session\<close> and \<open>attach_session\<close>.
  \<^item> \<open>Wire\<close>: \<open>Packet\<close>, \<open>packet_bytes\<close>, \<open>pop_packet\<close>, \<open>recv_packet_blocking\<close>, \<open>send_packet_blocking\<close>,
    \<open>read_u32\<close>, \<open>read_u64\<close>. The locale \<open>packet_codec\<close> derives reassembly from the laws of an encoder and a
    decoder and is interpreted on the source's. \<open>History\<close>: \<open>struct History\<close>, interpreted as a
    \<open>bounded_log\<close>. \<open>Outbound\<close>: \<open>struct Client\<close>, \<open>try_flush_client\<close>, \<open>send_packet_nonblocking\<close>,
    \<open>send_history\<close>, \<open>broadcast_content\<close>; the locales \<open>fifo_sender\<close> and \<open>whole_sender\<close> hold for both senders,
    the blocking and the queueing one.
  \<^item> \<open>Server\<close>: \<open>server_loop\<close> and \<open>read_client_packets\<close>, a definition per phase (\<open>poll_shutdown\<close>,
    \<open>accept_loop\<close>, \<open>pty_phase\<close>, \<open>wait_phase\<close>, \<open>read_phase\<close>, \<open>exit_phase\<close>, \<open>close_phase\<close>, \<open>finish\<close>), the pass
    \<open>server_tick\<close> and the loop. \<open>Evolution\<close> (what any phase may do to a client), \<open>Passes\<close> (what a phase
    does), \<open>Lifecycle\<close> (invariants over passes, by the locales \<open>pass_invariant\<close>, \<open>client_invariant\<close> and
    \<open>rare_effect\<close>), \<open>Guarantees\<close>, \<open>Keyboard\<close> (input), \<open>Delivery\<close> (output), \<open>Bounds\<close> (memory), \<open>Live\<close> (passes that
    may not end) and \<open>Signals\<close> (the server as a machine of passes and signals) hold its theorems.
  \<^item> \<open>ClientCalls\<close>: sequencing with the operator \<open>?\<close>. \<open>Cli\<close>: \<open>parse_args\<close>, \<open>command_args\<close>, \<open>real_main\<close>'s
    dispatch. \<open>ClientLoop\<close>: \<open>client_loop\<close>, \<open>attach_session\<close>, \<open>RawMode\<close>, \<open>current_winsize\<close>; \<open>Relay\<close> its
    theorems. \<open>Dump\<close>: \<open>dump_session\<close>. \<open>SendKeys\<close>: \<open>send_keys_session\<close>.
  \<^item> \<open>Paths\<close>: joining, parents and last components of paths, time stamps, the log's path and line.
    \<open>Sessions\<close>: \<open>socket_path\<close>, \<open>connect_session\<close>, \<open>session_alive\<close>, \<open>create_session\<close>, \<open>run_server\<close>,
    \<open>SocketGuard\<close>, the panic hook's message, \<open>server_log\<close>, over a \<open>world\<close> of sockets, regular files with their
    text (the logs among them), directories, listeners and the commands they were started for. \<open>Startup\<close>: parent, server and
    child of a start, interleaved over the startup pipe. \<open>Listing\<close>: \<open>list_sessions\<close>.
    \<open>ProcTitle\<close>: \<open>shorten_server_proctitle\<close>.
  \<^item> \<open>Program\<close>: \<open>main\<close> with every command executed on the shared world. This theory joins client and
    server.

  \<^bold>\<open>State and operations.\<close> A record stands for each struct or set of locals of the source: \<open>client\<close>,
  \<open>history\<close>, \<open>server\<close> (the locals of \<open>server_loop\<close>), \<open>opts\<close>, \<open>packet\<close>, \<open>statics\<close>, \<open>termios\<close>, \<open>socket_guard\<close>. What the
  outside answers is input: \<open>tick_env\<close> for a pass of the server, \<open>round\<close> for a turn of the client,
  \<open>host\<close> and \<open>outside\<close> for a command, scripts of answers for descriptors. Every theorem quantifies over
  all such inputs. Errors are the left side of \<open>io_result\<close>; \<open>None\<close> is a call that has not returned.
  Effects on terminals, processes and files are recorded in the order they happen.

  \<^bold>\<open>What is shown.\<close>
  \<^item> End to end (here): output of the session reaches the screen (C1), the exit status the
    shell (C2), keystrokes the terminal (C13), an attach greeting the server (C14), read-only holds until
    the next attach (C19), a session is created, found and gone, its log kept (C6).
  \<^item> Protocol: reassembly over every split (C15), both decoders agree (C23), whole packets on every
    connection (C3), oversized headers (C40). \<open>pop_packet_exact\<close>: the decoder inverts the encoder.
  \<^item> Server: bounded state and memory (C4, C12), when a pass returns (C29), the shutdown ends (C5), output of a run as one
    byte string (C7), history as the tail of it (C16), input (C18), closing (C22), replay (C24),
    the exit recorded once (C25), signals (C8, C27), lost output (C34), dropped input (C37).
  \<^item> Commands: the relay (C17), the terminal's mode (C26), the dump (C20), keys (C21), stuck input and
    overlooked window changes (C38, C39), command lines (C32), the listing (C33), \<open>-A\<close> (C9), what a
    run may touch (C28, C30), starting (C10, C11), deletion of a file and orphans (C35, C36), the process title (C31).

  \<^bold>\<open>Bounds and fuel.\<close> No loop has fuel. A loop whose end depends on the outside is a function of the
  outside's answers, and terminates by the size of what is left of them (\<open>rx_size\<close>, the queue, the
  buffer). This covers the passes that return; \<open>tick_live\<close> is the pass over endless streams of answers, by
  \<open>partial_function (option)\<close>, with \<open>None\<close> for a pass that never returns: \<open>server_tick\<close> is its case where
  nothing arrives behind the scripts, and a loop that returns on a stream does what it does on a finite part of it
  (\<open>pty_live_fed\<close>, \<open>read_live_fed\<close>). \<open>server_loop\<close> and \<open>client_loop\<close> are total functions of the passes and turns observed, and that the
  server returns is a theorem (C5): it holds from any reachable state with a recorded exit once the
  clock has passed \<open>EXIT_DRAIN_DEADLINE\<close>. The caps are the source's: \<open>HISTORY_CAP\<close>, \<open>SEND_QUEUE_CAP\<close>, \<open>MAX_PAYLOAD\<close>;
  1050640 in C24 is what a full history takes on the wire, its packets' headers and \<open>MSG_DUMP_END\<close> included.
  Integers of the protocol have their width; sizes in memory are natural numbers (the source's \<open>saturating_add\<close>
  is written out), and the arithmetic on them cannot overflow below the caps.

  \<^bold>\<open>Not modelled, or simplified.\<close>
  \<^item> The byte order is that of the two release targets (little endian); \<open>usize\<close> has 64 bits.
  \<^item> A \<open>string\<close> is the list of its bytes, valid UTF-8; \<open>from_utf8_lossy\<close> is the identity on it, and white space is that
    of ASCII.
  \<^item> Standard output is written through without the library's line buffer; where the source flushes this is
    the same. That \<open>println!\<close> panics when the standard output fails (listing, \<open>-v\<close>) is left out. The
    standard input's buffer is modelled, since \<open>select\<close> does not see it.
  \<^item> Macros and constants of the libc crate (\<open>WIFEXITED\<close>, \<open>ISIG\<close>, \<open>O_NONBLOCK\<close>, ...) are parameters; \<open>localtime_r\<close>,
    \<open>gmtime_r\<close>, \<open>gethostname\<close>, \<open>getuid\<close>, \<open>fork\<close>, \<open>forkpty\<close>, \<open>pipe\<close>, \<open>execvp\<close>, \<open>fcntl\<close> answer what the inputs say.
    Signal numbers are Linux's.
  \<^item> \<open>fd_read\<close>, \<open>isatty\<close> and \<open>redirect_stdio_to_null\<close> are one system call each, with no state of the program's own.
  \<^item> The world of paths changes only by the command at hand; two commands at once are interleaved in C36 only, and
    the server's passes and a client's turns are related by the bytes between them.
  \<^item> \<open>shorten_server_proctitle\<close> is the Linux version; on other systems it is empty. Memory outside the
    argument region is left alone.
  \<^item> Paths are compared as text: two spellings of one file, and symbolic links, are not identified. A
    \<open>create_dir_all\<close> that fails is taken to have made nothing. The log file is not rotated or removed by others.
  \<^item> The C sources under \<open>src/c\<close> are the program lich replaces, and no part of it.
\<close>

subsection \<open>Client and server together\<close>

lemma greeting_packets:
  "pop_packet (encode [a, r] @ []) = (Some a, encode [r])" if "packet_ok a" for a r
  using pop_packet_bytes [OF that, of "encode [r]"] by simp

lemma attach_greet_ok:
  assumes "attach_greet os env ws s = Some (Inr (), s')"
  shows "wire s' = wire s @ encode [\<lparr>mtyp = MSG_ATTACH, payload = u32_to_ne_bytes (opt_flags os)\<rparr>,
    resize_packet (current_winsize env ws)]"
proof -
  let ?a = "\<lparr>mtyp = MSG_ATTACH, payload = u32_to_ne_bytes (opt_flags os)\<rparr>"
  obtain p s1 where 1: "recv_packet_blocking s = Some (Inr p, s1)"
    "and_then (send_packet_blocking ?a) (\<lambda>u. send_resize env ws) s1 = Some (Inr (), s')"
    using assms unfolding attach_greet_def by (rule and_then_okE)
  from 1(2) obtain u s2 where 2: "send_packet_blocking ?a s1 = Some (Inr u, s2)"
    "send_resize env ws s2 = Some (Inr (), s')" by (rule and_then_okE)
  have "wire s1 = wire s" using recv_packet_wire [OF 1(1)] by simp
  moreover have "wire s2 = wire s1 @ packet_bytes ?a" using 2(1) send_packet_ok by simp
  moreover have "wire s' = wire s2 @ packet_bytes (resize_packet (current_winsize env ws))"
    using 2(2) send_packet_ok unfolding send_resize_def by blast
  ultimately show ?thesis by simp
qed

lemma handle_resize:
  "handle_packet inst pid (resize_packet ws) (c, s) =
     (c, emit [SetWinsize (fst ws) (snd ws), Kill (- pid) SIGWINCH] s)"
  by (simp add: handle_packet_def resize_packet_def wire_consts Let_def)

lemma handle_attach:
  "handle_packet inst pid \<lparr>mtyp = MSG_ATTACH, payload = u32_to_ne_bytes f\<rparr> (c, s) =
     (send_history (c\<lparr>attached := True, flags := f\<rparr>) (history_of s) False, s)"
  using read_u32_bytes [of f "[]"] by (simp add: handle_packet_def wire_consts Let_def)

lemma packet_loop_step:
  "packet_ok p \<Longrightarrow>
     packet_loop inst pid (c\<lparr>buf := packet_bytes p @ rest\<rparr>, s) =
     packet_loop inst pid (handle_packet inst pid p (c\<lparr>buf := rest\<rparr>, s))"
  by (simp add: packet_loop.simps [of inst pid "(c\<lparr>buf := packet_bytes p @ rest\<rparr>, s)"] pop_packet_bytes)

lemma packet_loop_empty: "buf c = [] \<Longrightarrow> packet_loop inst pid (c, s) = (c, s)"
  by (simp add: packet_loop.simps pop_packet_def)

lemma attach_then_buf:
  "c\<lparr>attached := a, flags := f, buf := b\<rparr> = c\<lparr>buf := b, attached := a, flags := f\<rparr>"
  by simp

lemma replay_buf:
  "send_history (c\<lparr>buf := b, attached := a, flags := f\<rparr>) h e =
     (send_history (c\<lparr>attached := a, flags := f\<rparr>) h e)\<lparr>buf := b\<rparr>"
  using send_history_buf [where c = "c\<lparr>attached := a, flags := f\<rparr>" and b = b]
  unfolding attach_then_buf .

lemma greeting_loop:
  fixes c :: client
  assumes "buf c = encode [\<lparr>mtyp = MSG_ATTACH, payload = u32_to_ne_bytes f\<rparr>, resize_packet ws]"
  shows "packet_loop inst pid (c, s) =
    (send_history (c\<lparr>buf := [], attached := True, flags := f\<rparr>) (history_of s) False,
     emit [SetWinsize (fst ws) (snd ws), Kill (- pid) SIGWINCH] s)"
proof -
  let ?a = "\<lparr>mtyp = MSG_ATTACH, payload = u32_to_ne_bytes f\<rparr>"
  let ?r = "resize_packet ws"
  have a: "packet_ok ?a" by (simp add: packet_ok_def MAX_PAYLOAD_def)
  have r: "packet_ok ?r" using resize_packet_ok by simp
  let ?h = "send_history (c\<lparr>buf := packet_bytes ?r, attached := True, flags := f\<rparr>) (history_of s) False"
  let ?k = "send_history (c\<lparr>buf := [], attached := True, flags := f\<rparr>) (history_of s) False"
  have b: "?h\<lparr>buf := []\<rparr> = ?k" by (simp add: replay_buf)
  have "packet_loop inst pid (c, s) = packet_loop inst pid (c\<lparr>buf := packet_bytes ?a @ packet_bytes ?r\<rparr>, s)"
    using assms by (cases c) simp
  also have "\<dots> = packet_loop inst pid (?h, s)"
    by (subst packet_loop_step [OF a], subst handle_attach) (rule refl)
  also have "\<dots> = packet_loop inst pid (?h\<lparr>buf := packet_bytes ?r @ []\<rparr>, s)"
    by (simp add: replay_buf)
  also have "\<dots> = packet_loop inst pid (?k, emit [SetWinsize (fst ws) (snd ws), Kill (- pid) SIGWINCH] s)"
    unfolding packet_loop_step [OF r] b by (simp only: handle_resize)
  finally show ?thesis by (simp add: packet_loop_empty)
qed

lemma read_client_effects:
  assumes "\<not> read_fails (rx (stream c))" and "buf c @ readable (rx (stream c)) = b"
  shows "snd (read_client inst pid (c, s)) =
      snd (packet_loop inst pid (c\<lparr>stream := (stream c)\<lparr>rx := snd (snd (read_loop (rx (stream c)) (buf c)))\<rparr>, buf := b\<rparr>, s))"
proof (cases "read_loop (rx (stream c)) (buf c)")
  case (fields e b' rs)
  have "e \<noteq> Failed"
    using assms(1) fields read_loop_end [of "rx (stream c)" "buf c" "[]"] by (simp add: read_fails_def)
  moreover have "b' = b" using read_loop_reads [OF fields] assms(2) by simp
  ultimately show ?thesis by (simp add: read_client_def fields Let_def)
qed

lemma read_client_result:
  assumes "\<not> read_fails (rx (stream c))" and "buf c @ readable (rx (stream c)) = b"
  shows "\<exists>d. fst (read_client inst pid (c, s)) =
      (let r = fst (packet_loop inst pid
          (c\<lparr>stream := (stream c)\<lparr>rx := snd (snd (read_loop (rx (stream c)) (buf c)))\<rparr>, buf := b\<rparr>, s))
       in if d then r\<lparr>disconnected := True\<rparr> else r)"
proof (cases "read_loop (rx (stream c)) (buf c)")
  case (fields e b' rs)
  have "e \<noteq> Failed"
    using assms(1) fields read_loop_end [of "rx (stream c)" "buf c" "[]"] by (simp add: read_fails_def)
  moreover have "b' = b" using read_loop_reads [OF fields] assms(2) by simp
  ultimately show ?thesis
    by (intro exI [of _ "e = SawEof"]) (simp add: read_client_def fields Let_def)
qed

subsection \<open>Properties\<close>

text \<open>C14: Attaching works end to end: when the client has sent its greeting and the server reads exactly
  those bytes from the connection, the server's client is attached with the flags of the command
  line, the terminal gets the client's window size and its process group \<open>SIGWINCH\<close>, and unless it
  is dropped the client has been committed the whole history, in packets.\<close>

theorem attach_greeting_received:
  assumes "attach_greet os env ws s = Some (Inr (), s')" and "buf c = []"
    and "readable (rx (stream c)) = drop (length (wire s)) (wire s')"
    and "\<not> read_fails (rx (stream c))"
    and "read_client inst pid (c, sv) = (c', sv')"
  shows "attached c' \<and> flags c' = opt_flags os \<and>
    effects sv' = effects sv @ [SetWinsize (fst (current_winsize env ws)) (snd (current_winsize env ws)), Kill (- pid) 28] \<and>
    (\<not> disconnected c' \<longrightarrow> outbound c' = outbound c @ encode (replay_packets (history_of sv)))"
proof -
  let ?b = "encode [\<lparr>mtyp = MSG_ATTACH, payload = u32_to_ne_bytes (opt_flags os)\<rparr>, resize_packet (current_winsize env ws)]"
  let ?c = "c\<lparr>stream := (stream c)\<lparr>rx := snd (snd (read_loop (rx (stream c)) (buf c)))\<rparr>, buf := ?b\<rparr>"
  have b: "buf c @ readable (rx (stream c)) = ?b"
    using attach_greet_ok [OF assms(1)] assms(2,3) by simp
  have "buf ?c = ?b" by simp
  note l = greeting_loop [OF this, of inst pid sv]
  let ?e = "c\<lparr>stream := (stream c)\<lparr>rx := snd (snd (read_loop (rx (stream c)) (buf c)))\<rparr>, buf := [],
    attached := True, flags := opt_flags os\<rparr>"
  let ?h = "send_history ?e (history_of sv) False"
  obtain d where c': "c' = (if d then ?h\<lparr>disconnected := True\<rparr> else ?h)"
    using read_client_result [OF assms(4) b, of inst pid sv] unfolding l assms(5) by (auto simp: Let_def)
  have "sv' = emit [SetWinsize (fst (current_winsize env ws)) (snd (current_winsize env ws)), Kill (- pid) SIGWINCH] sv"
    using read_client_effects [OF assms(4) b, of inst pid sv] unfolding l assms(5) by simp
  moreover have "outbound c' = outbound c @ encode (replay_packets (history_of sv))" if "\<not> disconnected c'"
  proof -
    from that c' have "c' = ?h" "\<not> disconnected ?h" by (auto split: if_splits)
    with send_history_complete [of ?e "history_of sv"]
    show ?thesis by (simp add: outbound_def)
  qed
  ultimately show ?thesis using c' by (simp add: SIGWINCH_def)
qed

theorem attach_greeting_received_witness:
  "\<exists>s' c' sv'. attach_greet initial_opts (\<lambda>v. None) None (conn demo_attach) = Some (Inr (), s') \<and>
     read_client 0 1 (new_client \<lparr>rx = [Bytes (wire s')], tx = [], wire = []\<rparr>, server_init True [] []) = (c', sv') \<and>
     attached c' \<and> effects sv' = [SetWinsize 25 80, Kill (- 1) 28]"
proof -
  obtain s' where g: "attach_greet initial_opts (\<lambda>v. None) None (conn demo_attach) = Some (Inr (), s')"
    using demo_greet by blast
  have w: "wire (conn demo_attach) = []" by (simp add: demo_attach_def)
  then have len: "length (wire s') \<le> 8192"
    using attach_greet_ok [OF g] by (simp add: resize_packet_def)
  let ?c = "new_client \<lparr>rx = [Bytes (wire s')], tx = [], wire = []\<rparr>"
  have c: "buf ?c = []" "readable (rx (stream ?c)) = drop (length (wire (conn demo_attach))) (wire s')"
    "\<not> read_fails (rx (stream ?c))"
    using w read_once [OF len] by (simp_all add: new_client_def)
  obtain c' sv' where r: "read_client 0 1 (?c, server_init True [] []) = (c', sv')" by fastforce
  have "current_winsize (\<lambda>v. None) None = (25, 80)" by (simp add: current_winsize_def env_u16_def)
  with attach_greeting_received [OF g c r] g r show ?thesis by (auto simp: server_init_def)
qed

definition attach_packet :: "u32 \<Rightarrow> packet" where
  "attach_packet f = \<lparr>mtyp = MSG_ATTACH, payload = u32_to_ne_bytes f\<rparr>"

lemma attach_packet_ok [simp]: "packet_ok (attach_packet f)"
  by (simp add: attach_packet_def packet_ok_def MAX_PAYLOAD_def)

lemma typed_attach [simp]: "typed f (attach_packet g # ps) = typed g ps"
  using read_u32_bytes [of g "[]"] by (simp add: attach_packet_def wire_consts)

lemma typed_resize [simp]: "typed f (resize_packet ws # ps) = typed f ps"
  by (simp add: resize_packet_def wire_consts)

lemma typed_no_attach:
  "f AND CLIENT_READONLY \<noteq> 0 \<Longrightarrow> \<forall>p \<in> set ps. mtyp p \<noteq> MSG_ATTACH \<Longrightarrow> typed f (ps @ qs) = typed f qs"
  by (induction ps) auto

text \<open>C19: \<open>-r\<close> binds the server only until the client attaches again. Of what the server
  reads, in one go, behind the greeting of a read-only command line, whatever the client sent, nothing reaches
  the terminal before the next \<open>MSG_ATTACH\<close>; but that packet is accepted, and what comes behind it is judged by its flags alone, so
  that a second attach without the read-only bit gives the client the keyboard.\<close>

theorem readonly_until_next_attach:
  assumes "attach_greet os env ws s = Some (Inr (), s')" and "opt_flags os AND CLIENT_READONLY \<noteq> 0"
    and "buf c = []" and "\<not> read_fails (rx (stream c))"
    and "readable (rx (stream c)) = drop (length (wire s)) (wire s') @ encode (ps @ again)"
    and "again = [] \<or> again = attach_packet g # qs"
    and "list_all packet_ok (ps @ again)" and "\<forall>p \<in> set ps. mtyp p \<noteq> MSG_ATTACH"
  shows "(again = [] \<longrightarrow> m_in (snd (read_client inst pid (c, sv))) = m_in sv) \<and>
    (again = attach_packet g # qs \<longrightarrow>
       m_in (snd (read_client inst pid (c, sv))) = m_in (fold write_master (typed g qs) sv)) \<and>
    (again = [attach_packet 0, content bs] \<and> list_all takes (m_tx sv) \<and> length bs \<le> length (m_tx sv) \<longrightarrow>
       m_in (snd (read_client inst pid (c, sv))) = m_in sv @ bs)"
proof -
  let ?w = "resize_packet (current_winsize env ws)"
  let ?all = "attach_packet (opt_flags os) # ?w # ps @ again"
  have "buf c @ readable (rx (stream c)) = encode ?all"
    using attach_greet_ok [OF assms(1)] assms(3,5) by (simp add: attach_packet_def)
  moreover have "list_all packet_ok ?all" using assms(7) resize_packet_ok by simp
  ultimately have "fst (pop_all (buf c @ readable (rx (stream c)))) = ?all"
    by (simp only: pop_all_encode fst_conv)
  moreover have "typed (flags c) ?all = typed (opt_flags os) again"
    using typed_no_attach [OF assms(2,8), of again] by (simp del: typed.simps)
  ultimately have m: "m_in (snd (read_client inst pid (c, sv))) = m_in (fold write_master (typed (opt_flags os) again) sv)"
    using read_client_typed [OF assms(4), of inst pid sv] by simp
  have "m_in (fold write_master [bs] sv) = m_in sv @ bs" if "list_all takes (m_tx sv)" "length bs \<le> length (m_tx sv)"
    using fold_write_master_takes [OF that(1), of "[bs]"] that(2) by simp
  moreover have "typed 0 [content bs] = [bs]" by (simp add: content_def)
  ultimately show ?thesis unfolding m by (auto simp del: typed.simps(2))
qed

theorem readonly_until_next_attach_witness:
  "\<exists>s'. attach_greet (initial_opts\<lparr>opt_flags := 1\<rparr>) (\<lambda>v. None) None (conn demo_attach) = Some (Inr (), s') \<and>
     m_in (snd (read_client 0 1
       (new_client \<lparr>rx = [Bytes (wire s' @ encode [content [120], attach_packet 0, content [121]])], tx = [], wire = []\<rparr>,
        server_init True [] [Count 9]))) = [121]"
proof -
  let ?os = "initial_opts\<lparr>opt_flags := 1\<rparr>"
  obtain s' where g: "attach_greet ?os (\<lambda>v. None) None (conn demo_attach) = Some (Inr (), s')"
    using demo_greet by blast
  let ?again = "[attach_packet 0, content [121]]"
  let ?c = "new_client \<lparr>rx = [Bytes (wire s' @ encode ([content [120]] @ ?again))], tx = [], wire = []\<rparr>"
  have w: "wire (conn demo_attach) = []" by (simp add: demo_attach_def)
  then have "length (wire s' @ encode ([content [120]] @ ?again)) \<le> 8192"
    using attach_greet_ok [OF g] by (simp add: resize_packet_def content_def attach_packet_def)
  from read_once [OF this] w have c: "buf ?c = []" "\<not> read_fails (rx (stream ?c))"
    "readable (rx (stream ?c)) = drop (length (wire (conn demo_attach))) (wire s') @ encode ([content [120]] @ ?again)"
    by (simp_all add: new_client_def)
  have f: "opt_flags ?os AND CLIENT_READONLY \<noteq> 0" by (simp add: CLIENT_READONLY_def)
  have a: "?again = [] \<or> ?again = attach_packet 0 # [content [121]]" by simp
  have "packet_ok (content [b])" for b by (simp add: content_def packet_ok_def MAX_PAYLOAD_def)
  then have ok: "list_all packet_ok ([content [120]] @ ?again)" by simp
  have na: "\<forall>p \<in> set [content [120]]. mtyp p \<noteq> MSG_ATTACH" by (simp add: content_def)
  have m: "list_all takes (m_tx (server_init True [] [Count 9]))" "length [121 :: u8] \<le> length (m_tx (server_init True [] [Count 9]))"
    "m_in (server_init True [] [Count 9]) = []"
    by (simp_all add: server_init_def takes_def)
  show ?thesis
    using readonly_until_next_attach [OF g f c a ok na, of 0 1 "server_init True [] [Count 9]" "[121]"] g m
    by (auto simp del: typed.simps(2))
qed

text \<open>C13: What the user types reaches the session: over any stretch of an attached client's loop, when the
  server reads exactly what the client wrote in it and the pty accepts bytes, the terminal's input
  grows by exactly the bytes the client took from the keyboard, in order.\<close>

theorem keystrokes_reach_session:
  assumes "client_loop os env rs st = Turning st'" and "opt_flags os AND CLIENT_READONLY = 0"
    and "buf c = []" and "flags c AND CLIENT_READONLY = 0"
    and "readable (rx (stream c)) = drop (length (wire (conn st))) (wire (conn st'))"
    and "\<not> read_fails (rx (stream c))"
    and "list_all takes (m_tx sv)" and "length (pending st) \<le> length (m_tx sv)"
  shows "\<exists>ds. pending st = ds @ pending st' \<and> m_in (snd (read_client inst pid (c, sv))) = m_in sv @ ds"
proof -
  from progress_loop [OF assms(1)] assms(2) obtain qs ds where
    q: "wire (conn st') = wire (conn st) @ encode qs" "pending st = ds @ pending st'" "contents qs = ds"
    "\<forall>q \<in> set qs. packet_ok q \<and> (mtyp q = MSG_CONTENT \<or> mtyp q = MSG_RESIZE)"
    unfolding progress_def by auto
  have "typed (flags c) qs = map payload (filter (\<lambda>p. mtyp p = MSG_CONTENT) qs)"
    using q(4) assms(4) by (induction qs) (auto simp: wire_consts)
  then have t: "concat (typed (flags c) qs) = ds" using q(3) by (simp add: contents_def)
  have "fst (pop_all (buf c @ readable (rx (stream c)))) = qs"
    using pop_all_encode [of qs] assms(3,5) q(1,4) by (simp add: list_all_iff)
  then have "m_in (snd (read_client inst pid (c, sv))) = m_in sv @ ds"
    using read_client_typed [OF assms(6), of inst pid sv] t fold_write_master_takes [OF assms(7), of "typed (flags c) qs"]
      assms(8) q(2) by simp
  with q(2) show ?thesis by blast
qed

theorem keystrokes_reach_session_witness:
  "m_in (snd (read_client 0 1
     (new_client \<lparr>rx = [Bytes (packet_bytes \<lparr>mtyp = MSG_CONTENT, payload = [120]\<rparr>)], tx = [], wire = []\<rparr>,
      server_init True [] [Count 9]))) = [120]"
proof -
  let ?c = "new_client \<lparr>rx = [Bytes (packet_bytes \<lparr>mtyp = MSG_CONTENT, payload = [120]\<rparr>)], tx = [], wire = []\<rparr>"
  have "\<not> read_fails (rx (stream ?c))"
    using read_once [of "packet_bytes \<lparr>mtyp = MSG_CONTENT, payload = [120]\<rparr>"] by (simp add: new_client_def)
  from keystrokes_reach_session [OF demo_keystroke _ _ _ _ this, of "server_init True [] [Count 9]" 0 1]
  show ?thesis
    by (simp add: new_client_def initial_opts_def demo_io_def server_init_def takes_def pending_def)
qed

text \<open>The child's exit status travels from the server to the user's shell: when the server announces
  the status to a client that was sent only \<open>MSG_PID\<close>-free content before, and the client reads what
  was committed to it, the client shows all of that content and its loop leaves with that status,
  so that the command exits with it.\<close>

lemma exit_status_end_to_end:
  assumes "outbound c = encode ps" and "list_all packet_ok ps"
    and "\<forall>p \<in> set ps. mtyp p \<noteq> MSG_EXIT \<and> mtyp p \<noteq> MSG_RESIZE"
    and "\<not> disconnected c" and "close_after_drain c = None"
    and "length (send_queue c) + 12 \<le> SEND_QUEUE_CAP"
    and "readable (rx (conn st)) = outbound (exit_one t code c)"
    and "\<not> passthrough os"
    and "list_all takes (stdout_tx st)" and "length (contents ps) \<le> length (stdout_tx st)"
    and "list_all takes (tx (conn st))" and "12 \<le> length (tx (conn st))"
  shows "\<exists>st'. client_loop os env (replicate (length ps + 1) (sock_round ws)) st = Left (Inr (Exited code)) st' \<and>
    shown st' = shown st @ contents ps \<and>
    (\<exists>st''. attach_end name True os (Exited code) st' = ExitProcess code st'')"
proof -
  have fits: "queue_fits c (exit_packet code)" using assms(6) by (simp add: queue_fits_def exit_packet_def)
  have "readable (rx (conn st)) = encode (ps @ [exit_packet code]) @ []"
    using exit_one_sends [OF assms(4,5) fits] assms(1,7) by simp
  from exit_rounds [OF assms(2,3,8) exit_packet_ok _ _ this assms(9-11)] show ?thesis
    using assms(12) read_u32_bytes [of code "[]"] by (simp add: exit_packet_def attach_end_def Let_def)
qed

lemma lich_attach_exits:
  assumes "\<not> prefix ''-'' name" and "on_terminal o'"
    and "fst (socket_path (host_of o') name w) = Inr p" and "fs w p = Some (SocketFile i)"
    and "i \<in> set (listening w)" and "connect_err (host_of o') p = None"
    and "readable (rx (stream_to o' i)) = encode (greeting # ps @ [exit_packet code])"
    and "packet_ok greeting" and "list_all packet_ok ps"
    and "\<forall>p \<in> set ps. mtyp p \<noteq> MSG_EXIT \<and> mtyp p \<noteq> MSG_RESIZE"
    and "list_all takes (tx (stream_to o' i))" and "36 \<le> length (tx (stream_to o' i))"
    and "list_all takes (stdout_tx (console o'))" and "length (contents ps) \<le> length (stdout_tx (console o'))"
    and "rounds_of o' = replicate (length ps + 1) (sock_round ws)"
  shows "\<exists>st w'. lich o' [''-a'', name] w = (AttachRun (ExitProcess code st), w') \<and>
    shown st = shown (console o') @ contents ps \<and> fs w' = fs w"
proof -
  let ?h = "host_of o'" and ?os = "attach_opts name"
  let ?st = "(console o')\<lparr>conn := stream_to o' i\<rparr>"
  obtain w1 where w1: "connect_session ?h name w = (Inr i, w1)" "fs w1 = fs w"
    using alive_live [OF assms(3-6)] by blast
  have "readable (rx (stream_to o' i)) = packet_bytes greeting @ encode (ps @ [exit_packet code])"
    using assms(7) by simp
  moreover have "24 \<le> length (tx (stream_to o' i))" using assms(12) by simp
  ultimately obtain s where
    g: "attach_greet ?os (envvar ?h) (first_size o') (stream_to o' i) = Some (Inr (), s)"
    "readable (rx s) = encode (ps @ [exit_packet code])" "list_all takes (tx s)"
    and len: "length (tx (stream_to o' i)) \<le> length (tx s) + 24"
    using greet_takes [OF assms(8) _ assms(11), of _ ?os "envvar ?h" "first_size o'"] by blast
  have g4: "12 \<le> length (tx s)" using len assms(12) by simp
  obtain saved st2 where e: "raw_enter ?os (term_consts o') (on_terminal o') (term_attr o') (?st\<lparr>conn := s\<rparr>) = (saved, st2)"
    by (cases "raw_enter ?os (term_consts o') (on_terminal o') (term_attr o') (?st\<lparr>conn := s\<rparr>)")
  then have st2: "conn st2 = s" "shown st2 = shown (console o')" "stdout_tx st2 = stdout_tx (console o')"
    by (auto simp: raw_enter_def split: if_splits option.splits)
  have np: "\<not> passthrough ?os" by (simp add: attach_opts_def initial_opts_def)
  have "readable (rx (conn st2)) = encode (ps @ [exit_packet code]) @ []" using g(2) st2 by simp
  then have "\<exists>st3. client_loop ?os (envvar ?h) (replicate (length ps + 1) (sock_round ws)) st2 =
      Left (Inr (Exited code)) st3 \<and> shown st3 = shown st2 @ contents ps"
    by (intro exit_rounds [OF assms(9,10) np exit_packet_ok, where rest = "[]"])
      (use assms(13,14) g(3) g4 st2 read_u32_bytes [of code "[]"] in \<open>simp_all add: exit_packet_def\<close>)
  then obtain st3 where
    l: "client_loop ?os (envvar ?h) (rounds_of o') st2 = Left (Inr (Exited code)) st3"
    "shown st3 = shown (console o') @ contents ps"
    unfolding assms(15) st2(2) by blast
  have d: "shown (raw_drop saved st3) = shown st3" by (simp add: raw_drop_def split: option.split)
  have "attach_session name True ?os (envvar ?h) (first_size o') (term_consts o') (on_terminal o') (term_attr o')
      (rounds_of o') ?st = attach_end name True ?os (Exited code) (raw_drop saved st3)"
    using g(1) e l(1) by (simp add: attach_session_def on_conn_def)
  with attach_args [OF assms(1)] w1 assms(2) l(2) d show ?thesis
    by (simp add: lich_def attach_command_def attach_end_def Let_def info_line_def)
qed

text \<open>C2: The session's exit status becomes \<open>lich\<close>'s own: a client that was greeted and sent packets \<open>ps\<close> is told the
  recorded status by the server's exit phase; the user's \<open>lich -a name\<close> at the other end of that
  connection, started on a terminal and able to write, shows the content of \<open>ps\<close>, and the process
  exits with the status (its low byte, as the kernel keeps it), no file changed.\<close>

theorem session_exit_status:
  assumes "outbound c = encode (greeting # ps)" and "list_all packet_ok (greeting # ps)"
    and "list_all (\<lambda>p. mtyp p \<noteq> MSG_EXIT \<and> mtyp p \<noteq> MSG_RESIZE) ps"
    and "\<not> disconnected c" and "close_after_drain c = None" and "length (send_queue c) + 12 \<le> SEND_QUEUE_CAP"
    and "\<not> prefix ''-'' name" and "on_terminal o'"
    and "fst (socket_path (host_of o') name w) = Inr p" and "fs w p = Some (SocketFile i)"
    and "i \<in> set (listening w)" and "connect_err (host_of o') p = None"
    and "readable (rx (stream_to o' i)) = outbound (exit_one t code c)"
    and "list_all takes (tx (stream_to o' i))" and "36 \<le> length (tx (stream_to o' i))"
    and "list_all takes (stdout_tx (console o'))" and "length (contents ps) \<le> length (stdout_tx (console o'))"
    and "rounds_of o' = replicate (length ps + 1) (sock_round ws)"
  shows "\<exists>st w'. lich o' [''-a'', name] w = (AttachRun (ExitProcess code st), w') \<and>
    main_exit (fst (lich o' [''-a'', name] w)) = Some (unat (code AND 255), []) \<and>
    shown st = shown (console o') @ contents ps \<and> fs w' = fs w"
proof -
  have fits: "queue_fits c (exit_packet code)" using assms(6) by (simp add: queue_fits_def exit_packet_def)
  have r: "readable (rx (stream_to o' i)) = encode (greeting # ps @ [exit_packet code])"
    using exit_one_sends [OF assms(4,5) fits] assms(1,13) by simp
  have "packet_ok greeting" "list_all packet_ok ps" "\<forall>p \<in> set ps. mtyp p \<noteq> MSG_EXIT \<and> mtyp p \<noteq> MSG_RESIZE"
    using assms(2,3) by (simp_all add: list_all_iff)
  from lich_attach_exits [OF assms(7-12) r this assms(14-18)] show ?thesis by auto
qed

definition leaving_client :: client where
  "leaving_client = new_client \<lparr>rx = [], tx = [], wire = encode [pid_packet demo_cfg, content [104]]\<rparr>"

definition leaving_outside :: outside where
  "leaving_outside = demo_outside\<lparr>
     stream_to := (\<lambda>i. \<lparr>rx = [Bytes (outbound (exit_one 0 3 leaving_client))], tx = replicate 36 (Count 1), wire = []\<rparr>),
     rounds_of := replicate (length [content [104]] + 1) (sock_round None)\<rparr>"

theorem session_exit_status_witness:
  "\<exists>st w'. lich leaving_outside [''-a'', ''a''] live_world = (AttachRun (ExitProcess 3 st), w') \<and>
     main_exit (fst (lich leaving_outside [''-a'', ''a''] live_world)) = Some (3, []) \<and> shown st = [104]"
proof -
  have c: "outbound leaving_client = encode (pid_packet demo_cfg # [content [104]])"
    "list_all packet_ok (pid_packet demo_cfg # [content [104]])"
    "list_all (\<lambda>p. mtyp p \<noteq> MSG_EXIT \<and> mtyp p \<noteq> MSG_RESIZE) [content [104]]"
    "\<not> disconnected leaving_client" "close_after_drain leaving_client = None"
    "length (send_queue leaving_client) + 12 \<le> SEND_QUEUE_CAP"
    by (simp_all add: leaving_client_def new_client_def outbound_def packet_ok_def pid_packet_def content_def
        MAX_PAYLOAD_def SEND_QUEUE_CAP_def wire_consts)
  have h: "\<not> prefix ''-'' ''a''" "on_terminal leaving_outside"
    "fst (socket_path (host_of leaving_outside) ''a'' live_world) = Inr ''/h/.lich/a@h''"
    "fs live_world ''/h/.lich/a@h'' = Some (SocketFile 4)" "4 \<in> set (listening live_world)"
    "connect_err (host_of leaving_outside) ''/h/.lich/a@h'' = None"
    using demo_paths(1) by (simp_all add: leaving_outside_def demo_outside_def live_world_def demo_host_def)
  have s: "readable (rx (stream_to leaving_outside 4)) = outbound (exit_one 0 3 leaving_client)"
    "list_all takes (tx (stream_to leaving_outside 4))" "36 \<le> length (tx (stream_to leaving_outside 4))"
    "list_all takes (stdout_tx (console leaving_outside))"
    "length (contents [content [104]]) \<le> length (stdout_tx (console leaving_outside))"
    "rounds_of leaving_outside = replicate (length [content [104]] + 1) (sock_round None)"
    "shown (console leaving_outside) = []"
    by (simp_all add: leaving_outside_def demo_outside_def demo_io_def takes_def list_all_iff content_def)
  show ?thesis
    using session_exit_status [OF c h s(1-6)] s(7) by (auto simp: content_def)
qed

text \<open>A client that consumed exactly some encoded packets has shown exactly their content.\<close>

lemma shown_of_committed:
  assumes "list_all packet_ok ps" "contents ps = d" "readable (rx (conn st)) = encode ps" "\<not> passthrough os"
    and "client_loop os env rs st = Turning st'" "readable (rx (conn st')) = []"
  shows "shown st' = shown st @ d"
proof -
  obtain qs where q: "list_all packet_ok qs" "readable (rx (conn st)) = encode qs" "shown st' = shown st @ contents qs"
    using progress_loop [OF assms(5)] assms(4,6) by (auto simp: progress_def)
  have "(ps, []) = pop_all (encode qs)"
    using pop_all_encode [OF assms(1)] unfolding assms(3) [symmetric] q(2) [symmetric] by (rule sym)
  with pop_all_encode [OF q(1)] have "ps = qs" by simp
  with q(3) assms(2) show ?thesis by simp
qed

text \<open>C1: What the session prints is what the user sees, over any run of the server and any run of the client: there is
  the output \<open>d\<close> the server took from the terminal in the run, such that for every attached client it
  kept, an attached \<open>lich\<close> that works on the bytes committed to that client in the run, in any pieces,
  and has consumed them, has shown exactly \<open>d\<close>, nothing lost, doubled or reordered.\<close>

theorem session_output_on_screen:
  assumes "server_loop cfg envs s = Running s'"
    and "length (snapshot (history_of s)) \<le> HISTORY_CAP" and "list_all (\<lambda>c. \<not> disconnected c) (clients s)"
  shows "\<exists>d cs kept new. rx_bytes (m_rx s) = d @ rx_bytes (m_rx s') \<and>
    subseq cs (clients s) \<and> clients s' = kept @ new \<and> length new \<le> sum_list (map connections envs) \<and>
    list_all2 (\<lambda>c c'. \<forall>st st' os env rs. attached c \<and> chatting c \<and> \<not> passthrough os \<and>
        outbound c' = outbound c @ readable (rx (conn st)) \<and>
        client_loop os env rs st = Turning st' \<and> readable (rx (conn st')) = [] \<longrightarrow>
      shown st' = shown st @ d) cs kept"
proof -
  obtain d cs kept new where d: "rx_bytes (m_rx s) = d @ rx_bytes (m_rx s')"
    "subseq cs (clients s)" "clients s' = kept @ new" "length new \<le> sum_list (map connections envs)"
    and k: "list_all2 (\<lambda>c c'. attached c \<and> chatting c \<longrightarrow>
         (\<exists>ps. list_all packet_ok ps \<and> outbound c' = outbound c @ encode ps \<and> contents ps = d)) cs kept"
    using run_output [OF assms] by blast
  have "list_all2 (\<lambda>c c'. \<forall>st st' os env rs. attached c \<and> chatting c \<and> \<not> passthrough os \<and>
        outbound c' = outbound c @ readable (rx (conn st)) \<and>
        client_loop os env rs st = Turning st' \<and> readable (rx (conn st')) = [] \<longrightarrow>
      shown st' = shown st @ d) cs kept"
    using k
  proof (rule list_all2_mono, intro allI impI, elim conjE)
    fix c c' st st' os env rs
    assume p: "attached c \<and> chatting c \<longrightarrow>
        (\<exists>ps. list_all packet_ok ps \<and> outbound c' = outbound c @ encode ps \<and> contents ps = d)"
      and h: "attached c" "chatting c" "\<not> passthrough os" "outbound c' = outbound c @ readable (rx (conn st))"
        "client_loop os env rs st = Turning st'" "readable (rx (conn st')) = []"
    from p h(1,2,4) obtain ps where "list_all packet_ok ps" "contents ps = d" "readable (rx (conn st)) = encode ps"
      by auto
    from shown_of_committed [OF this h(3,5,6)] show "shown st' = shown st @ d" .
  qed
  with d show ?thesis by blast
qed

definition screen_io :: attach_io where
  "screen_io = demo_io\<lparr>conn := \<lparr>rx = [Bytes (packet_bytes (content [104, 105]))], tx = [], wire = []\<rparr>, stdout_tx := [Count 9]\<rparr>"

lemma screen_run:
  "\<exists>st'. client_loop initial_opts (\<lambda>v. None) [sock_round None] screen_io = Turning st' \<and> readable (rx (conn st')) = []"
proof -
  have "readable (rx (conn screen_io)) = packet_bytes (content [104, 105]) @ []"
    by (simp add: screen_io_def)
  from recv_packet_next [OF _ this] obtain s where
    r: "recv_packet_blocking (conn screen_io) = Some (Inr (content [104, 105]), s)" "readable (rx s) = []"
    by (auto simp: packet_ok_def content_def MAX_PAYLOAD_def)
  then show ?thesis
    by (simp add: sock_turn socket_part_def on_conn_def handle_server_packet_def content_def initial_opts_def
        and_then_def return_ok_def stdout_write_def) (simp add: screen_io_def return_ok_def)
qed

theorem session_output_on_screen_witness:
  "\<exists>st'. client_loop initial_opts (\<lambda>v. None) [sock_round None] screen_io = Turning st' \<and> shown st' = [104, 105]"
proof -
  have c: "length (snapshot (history_of talking)) \<le> HISTORY_CAP" "list_all (\<lambda>c. \<not> disconnected c) (clients talking)"
    by (simp_all add: talking_def server_init_def new_client_def)
  obtain st' where st': "client_loop initial_opts (\<lambda>v. None) [sock_round None] screen_io = Turning st'"
    "readable (rx (conn st')) = []" using screen_run by blast
  let ?c = "(new_client \<lparr>rx = [], tx = [Count 99], wire = []\<rparr>)\<lparr>attached := True\<rparr>"
  have a: "attached ?c" "chatting ?c" by (simp_all add: new_client_def chatting_def exI [of _ "[]"])
  obtain d cs kept where d: "rx_bytes (m_rx talking) = d @ rx_bytes (m_rx talked)" "subseq cs (clients talking)"
    "clients talked = kept" and k: "list_all2 (\<lambda>c c'. \<forall>st st' os env rs. attached c \<and> chatting c \<and> \<not> passthrough os \<and>
        outbound c' = outbound c @ readable (rx (conn st)) \<and>
        client_loop os env rs st = Turning st' \<and> readable (rx (conn st')) = [] \<longrightarrow>
      shown st' = shown st @ d) cs kept"
    using session_output_on_screen [OF talking_run c] by (auto simp: connections_def quiet_env_def)
  have "length cs = 1" using list_all2_lengthD [OF k] d(3) [symmetric] by (simp add: talked_def)
  with d(2) have cs: "cs = [?c]" by (auto simp: talking_def length_Suc_conv split: if_splits)
  let ?c' = "(new_client \<lparr>rx = [], tx = [], wire = packet_bytes (content [104, 105])\<rparr>)\<lparr>attached := True\<rparr>"
  have kept: "kept = [?c']" using d(3) by (simp add: talked_def)
  have "outbound ?c' = outbound ?c @ readable (rx (conn screen_io))" "\<not> passthrough initial_opts"
    by (simp_all add: outbound_def new_client_def screen_io_def initial_opts_def)
  with a st' have "shown st' = shown screen_io @ d"
    using k [unfolded cs kept list_all2_Cons, THEN conjunct1, rule_format, of initial_opts screen_io] by blast
  with st' d(1) show ?thesis by (auto simp: talking_def talked_def server_init_def screen_io_def demo_io_def)
qed

text \<open>C6: The life of a session: after \<open>create_session\<close> has reported success, the name leads to the new server,
  which listens at a path that only it has, runs for the command given, and has logged its start beside the
  socket if the log could be made; when that server's loop returns, the process exits with
  code 0 having logged what the loop said and no error, and neither the path nor the listener is left, so that
  a client finds no session (and \<open>-A\<close> may make a new one), every other file, its log apart, and every other
  listener as it was.\<close>

theorem session_life_cycle:
  assumes "create_session h name cmd (Forked rs) w = (Some (Inr ()), w1)" and "connect_err h p = None"
    and "fst (socket_path h name w) = Inr p"
    and "server_loop cfg envs (server_init rp prx ptx) = Done s"
    and "fst (set_nonblocking nb l) = Inr ()" and "fst (set_nonblocking nb m) = Inr ()"
    and "server_process p (next_id w) pid ks (effects s) (map_option Ends (run_server Started nb l m
      (server_loop cfg envs (server_init rp prx ptx)))) w1 = (code, w2)"
  shows "fst (connect_session h name w1) = Inr (next_id w) \<and> commands w1 (next_id w) = Some cmd \<and>
    (\<forall>n. log_opened (start_call h) = Some n \<and> fs w (derive_server_log_path p) = None \<and>
       derive_server_log_path p \<notin> dirs w1 \<longrightarrow>
       fs w1 (derive_server_log_path p) = Some (RegularFile (take n (server_log_line (log_clock (start_call h))
         (forked_pid h) ''start'' (''pid='' @ show_nat (forked_pid h) @ '' session='' @ name))))) \<and>
    code = Some 0 \<and>
    process_log pid name (map_option Ends (run_server Started nb l m
      (server_loop cfg envs (server_init rp prx ptx)))) =
      [(''start'', ''pid='' @ show_nat pid @ '' session='' @ name)] \<and>
    (\<exists>es st. effects s = es @ [ServerLog ''shutdown'' st]) \<and> clients s = [] \<and>
    no_server w2 p \<and> next_id w \<notin> set (listening w2) \<and>
    fst (connect_session h name w2) = Inl (IoError NotFound ''No such file or directory'') \<and>
    {q. fs w2 q \<noteq> fs w1 q} \<subseteq> {p, derive_server_log_path p} \<and>
    (\<forall>old. fs w1 (derive_server_log_path p) = Some (RegularFile old) \<longrightarrow>
       fs w2 (derive_server_log_path p) = Some (RegularFile (old @ log_text pid ks (logged (effects s))))) \<and>
    listening w2 = removeAll (next_id w) (listening w1)"
proof -
  from created_session_reachable [OF assms(1)] assms(2,3) have c:
    "fs w1 p = Some (SocketFile (next_id w))" "fst (connect_session h name w1) = Inr (next_id w)"
    "p \<notin> dirs w1" "commands w1 (next_id w) = Some cmd"
    "\<forall>n. log_opened (start_call h) = Some n \<and> fs w (derive_server_log_path p) = None \<and>
       derive_server_log_path p \<notin> dirs w1 \<longrightarrow>
       fs w1 (derive_server_log_path p) = Some (RegularFile (take n (server_log_line (log_clock (start_call h))
         (forked_pid h) ''start'' (''pid='' @ show_nat (forked_pid h) @ '' session='' @ name))))"
    by auto
  let ?w = "write_log (derive_server_log_path p) pid ks (logged (effects s)) w1"
  have r: "run_server Started nb l m (server_loop cfg envs (server_init rp prx ptx)) = Some (Inr ())"
    using assms(4-6) by (simp add: run_server_def)
  with assms(7) have "w2 = remove_file p (?w\<lparr>listening := removeAll (next_id w) (listening w1)\<rparr>)" "code = Some 0"
    by (simp_all add: server_process_def guard_drop_def guard_new_def end_entries_def Let_def)
  then have f: "fs w2 p = None" "p \<notin> dirs w2" "listening w2 = removeAll (next_id w) (listening w1)" "code = Some 0"
    "\<forall>q. q \<noteq> p \<longrightarrow> fs w2 q = fs ?w q"
    using c(3) by simp_all
  have "fst (connect_session h name w2) = Inl (IoError NotFound ''No such file or directory'')"
  proof (cases "socket_path h name w2")
    case (Pair x v)
    with assms(3) socket_path_world [of h name w2 w] have "x = Inr p" by simp
    with Pair f(1,2) assms(2) socket_path_cases [OF Pair] show ?thesis
      by (simp add: connect_session_def unix_connect_def)
  qed
  moreover have "fs w2 (derive_server_log_path p) = Some (RegularFile (old @ log_text pid ks (logged (effects s))))"
    if "fs w1 (derive_server_log_path p) = Some (RegularFile old)" for old
    using write_log_appends [OF that] f(5) by simp
  moreover have "{q. fs w2 q \<noteq> fs w1 q} \<subseteq> {p, derive_server_log_path p}"
  proof -
    have "fs w2 q = fs w1 q" if "q \<noteq> p" "q \<noteq> derive_server_log_path p" for q using f(5) that by simp
    then show ?thesis by blast
  qed
  moreover have "process_log pid name (map_option Ends (run_server Started nb l m
      (server_loop cfg envs (server_init rp prx ptx)))) = [(''start'', ''pid='' @ show_nat pid @ '' session='' @ name)]"
    using r by (simp add: process_log_def end_entries_def start_entry_def)
  moreover have "no_server w2 p" "next_id w \<notin> set (listening w2)" using f by (simp_all add: no_server_def)
  ultimately show ?thesis using c(2,4,5) f(3,4) server_loop_done [OF assms(4)] by simp
qed

theorem session_life_cycle_witness:
  "fst (connect_session demo_host ''a'' created_demo) = Inr 0 \<and>
   (\<exists>w2. server_process ''/h/.lich/a@h'' 0 8 (\<lambda>n. \<lparr>log_opened = Some 99, log_clock = None\<rparr>) (effects demo_stopped)
       (Some (Ends (Inr ()))) created_demo = (Some 0, w2) \<and>
     fst (connect_session demo_host ''a'' w2) = Inl (IoError NotFound ''No such file or directory''))"
proof -
  let ?f = "\<lparr>getfl = Inr 2, setfl_err = None\<rparr>"
  let ?loop = "server_loop demo_cfg [quiet_env\<lparr>shutdown_requested := True\<rparr>] (server_init False [] [])"
  let ?fin = "map_option Ends (run_server Started 2048 ?f ?f ?loop)"
  let ?ks = "\<lambda>n :: nat. \<lparr>log_opened = Some 99, log_clock = None\<rparr>"
  have l: "?loop = Done demo_stopped" using idle_tick by (simp add: demo_stopped_def)
  have n: "fst (set_nonblocking 2048 ?f) = Inr ()" by (simp add: set_nonblocking_def)
  have c: "connect_err demo_host ''/h/.lich/a@h'' = None" by (simp add: demo_host_def)
  have z: "next_id demo_world = 0" by (simp add: demo_world_def)
  have e: "?fin = Some (Ends (Inr ()))" using l n by (simp add: run_server_def)
  obtain code w2 where p: "server_process ''/h/.lich/a@h'' (next_id demo_world) 8 ?ks (effects demo_stopped) ?fin created_demo = (code, w2)"
    by (cases "server_process ''/h/.lich/a@h'' (next_id demo_world) 8 ?ks (effects demo_stopped) ?fin created_demo")
  from session_life_cycle [OF created_demo_ok c demo_paths(1) l n n p] p [unfolded e z] z show ?thesis by auto
qed

end
